theory Spec2Isabelle
  imports Main "HOL-Library.Word"
begin

section \<open>Values, pointers and the free store\<close>

text \<open>
  \<^verbatim>\<open>std::size_t\<close> is an unsigned 64-bit integer: \<open>+\<close>, \<open>-\<close> and \<open>*\<close> wrap around, and
  the comparison \<^verbatim>\<open>chunk.size - chunk.used >= n\<close> of \<^verbatim>\<open>allocate\<close> is a comparison of
  wrapped values.
\<close>

type_synonym size_type = "64 word"

text \<open>
  A pointer is null or names an element slot of a block of raw memory: \<open>Ptr b i\<close> is the
  \<open>i\<close>-th element slot of block \<open>b\<close>. Every successful \<^verbatim>\<open>operator new\<close> yields a new
  block, and pointer arithmetic stays inside its block, so pointers into different blocks
  never alias. The free store records how many bytes a block has; that a slot lies
  inside its block is not checked.
\<close>

datatype pointer = nullptr | Ptr nat nat

fun ptr_add :: "pointer \<Rightarrow> size_type \<Rightarrow> pointer" where
  "ptr_add (Ptr b i) k = Ptr b (i + unat k)"
| "ptr_add nullptr k = nullptr"

datatype exn = bad_alloc | user_exn nat

text \<open>
  What a call does: it returns a value in a new state; it throws in a new state; it has
  undefined behaviour (it reads a node through a pointer at which no object lives, it
  constructs in storage that has been released, it releases storage twice); or the
  program ends in \<^verbatim>\<open>std::terminate\<close>, because an exception leaves a function declared
  \<^verbatim>\<open>noexcept\<close>.
\<close>

datatype ('r, 's) result = Returns 'r 's | Throws exn 's | Undefined | Terminates

text \<open>The calls made through \<^verbatim>\<open>std::allocator_traits\<close>, in the order they happen.\<close>

datatype event =
    EvAllocate size_type pointer
  | EvDeallocate pointer size_type
  | EvConstruct pointer
  | EvDestroy pointer

text \<open>
  The store shared by all objects of a program: \<open>mem\<close> holds the object living in each
  element slot (\<open>None\<close>: raw storage, no object constructed there or the object has been
  destroyed); \<open>blocks\<close>, \<open>next_block\<close> and \<open>avail\<close> are the state of the C++ free store,
  which the repository calls and does not define: \<open>blocks\<close> holds the size in bytes of
  every block handed out and not yet released, block numbers from \<open>next_block\<close> on have
  never been handed out, and \<open>avail\<close> bytes are left.
\<close>

record 'a store =
  mem :: "pointer \<Rightarrow> 'a option"
  blocks :: "nat \<Rightarrow> nat option"
  next_block :: nat
  avail :: nat
  trace :: "event list"

text \<open>
  \<^verbatim>\<open>operator new(bytes)\<close>: a block never handed out before, or \<^verbatim>\<open>std::bad_alloc\<close> when
  the free store cannot supply the bytes.
\<close>

definition operator_new :: "size_type \<Rightarrow> 'a store \<Rightarrow> (pointer, 'a store) result" where
  "operator_new bytes s =
     (if unat bytes \<le> avail s
      then Returns (Ptr (next_block s) 0)
             (s\<lparr>blocks := (blocks s)(next_block s := Some (unat bytes)),
                next_block := Suc (next_block s), avail := avail s - unat bytes\<rparr>)
      else Throws bad_alloc s)"

text \<open>
  \<^verbatim>\<open>operator delete(p)\<close>: nothing for a null pointer; otherwise \<open>p\<close> must be the start of
  a block that has not been released. The block goes back to the free store, and no
  object lives in it any more.
\<close>

definition operator_delete :: "pointer \<Rightarrow> 'a store \<Rightarrow> (unit, 'a store) result" where
  "operator_delete p s =
     (case p of
        nullptr \<Rightarrow> Returns () s
      | Ptr b i \<Rightarrow>
          (case blocks s b of
             None \<Rightarrow> Undefined
           | Some bytes \<Rightarrow>
               if i \<noteq> 0 then Undefined
               else Returns ()
                      (s\<lparr>mem := (\<lambda>q. case q of
                                        nullptr \<Rightarrow> mem s q
                                      | Ptr b' j \<Rightarrow> if b' = b then None else mem s q),
                         blocks := (blocks s)(b := None),
                         avail := avail s + bytes\<rparr>)))"

section \<open>The pool allocator (my\_allocator.h)\<close>

record Chunk =
  data :: pointer
  size_c :: size_type
  used :: size_type

text \<open>
  A member name of the source ends in an underscore, which a field name cannot: the
  fields are \<open>chunks_m\<close> for \<^verbatim>\<open>chunks_\<close>, and likewise \<open>head_m\<close>, \<open>tail_m\<close>, \<open>size_m\<close> and
  \<open>allocator_m\<close> below; \<open>size_c\<close> is \<^verbatim>\<open>Chunk::size\<close>.

  \<^verbatim>\<open>chunks_\<close> is a \<^verbatim>\<open>std::vector<Chunk>\<close>: \<open>chunks_m\<close> holds its elements and
  \<open>chunks_cap\<close> its capacity. The buffer of the vector holds chunk records, no elements
  of \<open>T\<close>, so only its size in bytes is kept: \<open>chunks_cap * sizeof_Chunk\<close> bytes of the
  free store. \<^verbatim>\<open>sizeof(Chunk)\<close> is 24 where a pointer and a \<^verbatim>\<open>size_t\<close> take 8 bytes.
\<close>

record my_allocator =
  chunks_m :: "Chunk list"
  chunks_cap :: nat

definition sizeof_Chunk :: nat where
  "sizeof_Chunk = 24"

text \<open>\<^verbatim>\<open>my_allocator() noexcept = default\<close>: no chunks, and a vector without a buffer.\<close>

definition my_allocator_default :: my_allocator where
  "my_allocator_default = \<lparr>chunks_m = [], chunks_cap = 0\<rparr>"

text \<open>
  \<^verbatim>\<open>chunks_.push_back(chunk)\<close>. A vector that is full moves to a new buffer, as
  libstdc++ and libc++ do it: the new capacity is \<open>size + max(size, 1)\<close>, the new buffer
  is taken from the free store while the old one is still held, and
  \<^verbatim>\<open>std::bad_alloc\<close> leaves the vector as it was.
\<close>

definition vector_push_back ::
  "my_allocator \<Rightarrow> Chunk \<Rightarrow> 'a store \<Rightarrow> (unit, my_allocator \<times> 'a store) result" where
  "vector_push_back a chunk s =
     (if length (chunks_m a) < chunks_cap a
      then Returns () (a\<lparr>chunks_m := chunks_m a @ [chunk]\<rparr>, s)
      else (let new_cap = length (chunks_m a) + max (length (chunks_m a)) 1 in
            if new_cap * sizeof_Chunk \<le> avail s
            then Returns ()
                   (a\<lparr>chunks_m := chunks_m a @ [chunk], chunks_cap := new_cap\<rparr>,
                    s\<lparr>avail := avail s - new_cap * sizeof_Chunk + chunks_cap a * sizeof_Chunk\<rparr>)
            else Throws bad_alloc (a, s)))"

text \<open>
  The \<^verbatim>\<open>for (auto& chunk : chunks_)\<close> loop of \<^verbatim>\<open>allocate\<close>: the first chunk with
  \<^verbatim>\<open>chunk.size - chunk.used >= n\<close> yields \<^verbatim>\<open>chunk.data + chunk.used\<close> and gets
  \<^verbatim>\<open>chunk.used += n\<close>; \<open>None\<close> when the loop falls through.
\<close>

fun find_fit :: "Chunk list \<Rightarrow> size_type \<Rightarrow> (pointer \<times> Chunk list) option" where
  "find_fit [] n = None"
| "find_fit (chunk # rest) n =
     (if n \<le> size_c chunk - used chunk
      then Some (ptr_add (data chunk) (used chunk), chunk\<lparr>used := used chunk + n\<rparr> # rest)
      else (case find_fit rest n of
              None \<Rightarrow> None
            | Some (result, rest') \<Rightarrow> Some (result, chunk # rest')))"

text \<open>
  \<^verbatim>\<open>pointer allocate(size_type n)\<close>, for the template parameter \<open>ChunkSize\<close> and
  \<open>sizeof_T = sizeof(T)\<close>. When \<^verbatim>\<open>chunks_.push_back\<close> throws, the memory of the new chunk
  has been taken from the free store and is recorded nowhere.
\<close>

definition allocate ::
  "size_type \<Rightarrow> size_type \<Rightarrow> size_type \<Rightarrow> my_allocator \<times> 'a store \<Rightarrow>
     (pointer, my_allocator \<times> 'a store) result" where
  "allocate ChunkSize sizeof_T n = (\<lambda>(a, s).
     if n = 0 then Returns nullptr (a, s)
     else (case find_fit (chunks_m a) n of
             Some (result, cs) \<Rightarrow> Returns result (a\<lparr>chunks_m := cs\<rparr>, s)
           | None \<Rightarrow>
               (let new_size = max ChunkSize n in
                case operator_new (new_size * sizeof_T) s of
                  Throws e s' \<Rightarrow> Throws e (a, s')
                | Undefined \<Rightarrow> Undefined
                | Terminates \<Rightarrow> Terminates
                | Returns new_memory s' \<Rightarrow>
                    if new_memory = nullptr then Throws bad_alloc (a, s')
                    else (case vector_push_back a
                                 \<lparr>data = new_memory, size_c = new_size, used = 0\<rparr> s' of
                            Throws e st \<Rightarrow> Throws e st
                          | Undefined \<Rightarrow> Undefined
                          | Terminates \<Rightarrow> Terminates
                          | Returns u (a', s'') \<Rightarrow>
                              (let cs = chunks_m a';
                                   result = data (last cs);
                                   cs' = butlast cs @ [(last cs)\<lparr>used := n\<rparr>]
                               in Returns result (a'\<lparr>chunks_m := cs'\<rparr>, s''))))))"

text \<open>\<^verbatim>\<open>void deallocate(pointer p, size_type n) noexcept\<close>: both arguments are discarded.\<close>

definition deallocate :: "my_allocator \<Rightarrow> pointer \<Rightarrow> size_type \<Rightarrow> my_allocator" where
  "deallocate a p n = a"

text \<open>
  \<^verbatim>\<open>construct(p, args...)\<close> is a placement new at \<open>p\<close>. The second argument is what running
  the constructor of \<open>U\<close> on the arguments does: it throws, or it yields the object, which
  then lives at \<open>p\<close>; \<open>p\<close> must point into a block that has not been released.
\<close>

definition construct :: "pointer \<Rightarrow> exn + 'a \<Rightarrow> 'a store \<Rightarrow> (unit, 'a store) result" where
  "construct p made s =
     (case made of
        Inl e \<Rightarrow> Throws e s
      | Inr x \<Rightarrow>
          (case p of
             nullptr \<Rightarrow> Undefined
           | Ptr b i \<Rightarrow>
               (case blocks s b of
                  None \<Rightarrow> Undefined
                | Some bytes \<Rightarrow> Returns () (s\<lparr>mem := (mem s)(p := Some x)\<rparr>))))"

text \<open>
  \<^verbatim>\<open>destroy(p)\<close> runs the destructor: the storage stays, the object is gone. The
  destructor of \<open>U\<close> is taken to do nothing where no object lives, as a trivial
  destructor does.
\<close>

definition destroy :: "pointer \<Rightarrow> (pointer \<Rightarrow> 'a option) \<Rightarrow> (pointer \<Rightarrow> 'a option)" where
  "destroy p m = m(p := None)"

text \<open>
  \<^verbatim>\<open>operator==\<close> and \<^verbatim>\<open>operator!=\<close> compare \<^verbatim>\<open>this\<close> with \<^verbatim>\<open>&other\<close>: the arguments
  are the addresses of the two allocator objects, not their contents.
\<close>

definition operator_eq :: "nat \<Rightarrow> nat \<Rightarrow> bool" where
  "operator_eq this other = (this = other)"

definition operator_ne :: "nat \<Rightarrow> nat \<Rightarrow> bool" where
  "operator_ne this other = (\<not> operator_eq this other)"

text \<open>
  Allocator objects live at addresses. Declaring a variable of type \<^verbatim>\<open>my_allocator\<close>
  at address \<open>this\<close> puts a default-constructed allocator there.
\<close>

definition declare_allocator :: "nat \<Rightarrow> (nat \<Rightarrow> my_allocator option) \<Rightarrow> (nat \<Rightarrow> my_allocator option)" where
  "declare_allocator this objects = objects(this := Some my_allocator_default)"

text \<open>A run of \<^verbatim>\<open>allocate\<close> calls, one per requested count; it stops at the first throw.\<close>

fun allocate_all ::
  "size_type \<Rightarrow> size_type \<Rightarrow> size_type list \<Rightarrow> my_allocator \<times> 'a store \<Rightarrow>
     (pointer list, my_allocator \<times> 'a store) result" where
  "allocate_all ChunkSize sizeof_T [] st = Returns [] st"
| "allocate_all ChunkSize sizeof_T (n # ns) st =
     (case allocate ChunkSize sizeof_T n st of
        Returns p st' \<Rightarrow>
          (case allocate_all ChunkSize sizeof_T ns st' of
             Returns ps st'' \<Rightarrow> Returns (p # ps) st''
           | Throws e st'' \<Rightarrow> Throws e st''
           | Undefined \<Rightarrow> Undefined
           | Terminates \<Rightarrow> Terminates)
      | Throws e st' \<Rightarrow> Throws e st'
      | Undefined \<Rightarrow> Undefined
      | Terminates \<Rightarrow> Terminates)"

text \<open>
  The element slots of a chunk, counted from its base: \<open>slot_of c i\<close> is
  \<^verbatim>\<open>c.data + i\<close>. A slot is handed out when it lies in \<open>[base, base+used)\<close> of some chunk.
\<close>

definition slot_of :: "Chunk \<Rightarrow> nat \<Rightarrow> pointer" where
  "slot_of c i = (case data c of nullptr \<Rightarrow> nullptr | Ptr b j \<Rightarrow> Ptr b (j + i))"

definition handed_out :: "my_allocator \<Rightarrow> pointer \<Rightarrow> bool" where
  "handed_out a p = (\<exists>c \<in> set (chunks_m a). \<exists>i \<in> {..<unat (used c)}. p = slot_of c i)"

text \<open>
  What a client does with an allocator: the four member functions. A client constructs
  and destroys only in storage that \<^verbatim>\<open>allocate\<close> has handed out; a run that does
  otherwise is no run (\<open>None\<close>), and neither is one with undefined behaviour. A throwing
  \<^verbatim>\<open>allocate\<close> or constructor leaves the client running.
\<close>

datatype 'a alloc_op =
    Allocate size_type
  | Deallocate pointer size_type
  | Construct pointer "exn + 'a"
  | Destroy pointer

fun alloc_step ::
  "size_type \<Rightarrow> size_type \<Rightarrow> 'a alloc_op \<Rightarrow> my_allocator \<times> 'a store \<Rightarrow>
     (my_allocator \<times> 'a store) option" where
  "alloc_step ChunkSize sizeof_T (Allocate n) (a, s) =
     (case allocate ChunkSize sizeof_T n (a, s) of
        Returns p st \<Rightarrow> Some st
      | Throws e st \<Rightarrow> Some st
      | Undefined \<Rightarrow> None
      | Terminates \<Rightarrow> None)"
| "alloc_step ChunkSize sizeof_T (Deallocate p n) (a, s) = Some (deallocate a p n, s)"
| "alloc_step ChunkSize sizeof_T (Construct p made) (a, s) =
     (if handed_out a p
      then (case construct p made s of
              Returns u s' \<Rightarrow> Some (a, s')
            | Throws e s' \<Rightarrow> Some (a, s')
            | Undefined \<Rightarrow> None
            | Terminates \<Rightarrow> None)
      else None)"
| "alloc_step ChunkSize sizeof_T (Destroy p) (a, s) =
     (if handed_out a p then Some (a, s\<lparr>mem := destroy p (mem s)\<rparr>) else None)"

fun alloc_run ::
  "size_type \<Rightarrow> size_type \<Rightarrow> 'a alloc_op list \<Rightarrow> my_allocator \<times> 'a store \<Rightarrow>
     (my_allocator \<times> 'a store) option" where
  "alloc_run ChunkSize sizeof_T [] st = Some st"
| "alloc_run ChunkSize sizeof_T (x # xs) st =
     (case alloc_step ChunkSize sizeof_T x st of
        None \<Rightarrow> None
      | Some st' \<Rightarrow> alloc_run ChunkSize sizeof_T xs st')"

text \<open>A store in which no object lives and from which no block has been taken yet.\<close>

definition empty_store :: "nat \<Rightarrow> nat \<Rightarrow> 'a store" where
  "empty_store nb av =
     \<lparr>mem = (\<lambda>p. None), blocks = (\<lambda>b. None), next_block = nb, avail = av, trace = []\<rparr>"

section \<open>The linked container (my\_container.h)\<close>

text \<open>
  The container is taken with \<^verbatim>\<open>Allocator = my_allocator<T, ChunkSize>\<close>, as the second
  container of \<^verbatim>\<open>main\<close> is; its node allocator is \<^verbatim>\<open>my_allocator<Node, ChunkSize>\<close>.
  \<open>data_n\<close> is \<^verbatim>\<open>Node::data\<close>.
\<close>

record 'v Node =
  data_n :: 'v
  "next" :: pointer

text \<open>
  \<^verbatim>\<open>Node(Args&&... args) : data(std::forward<Args>(args)...), next(nullptr)\<close>. The argument
  is what constructing the \<open>T\<close> from the arguments does.
\<close>

definition Node_ctor :: "exn + 'v \<Rightarrow> exn + 'v Node" where
  "Node_ctor made = (case made of Inl e \<Rightarrow> Inl e | Inr d \<Rightarrow> Inr \<lparr>data_n = d, next = nullptr\<rparr>)"

record my_container =
  head_m :: pointer
  tail_m :: pointer
  size_m :: size_type
  allocator_m :: my_allocator

text \<open>
  \<^verbatim>\<open>node_traits\<close> forwards to the member functions of the node allocator
  \<^verbatim>\<open>my_allocator<Node, ChunkSize>\<close>; each call is recorded in the trace.
\<close>

definition traits_allocate ::
  "size_type \<Rightarrow> size_type \<Rightarrow> size_type \<Rightarrow> my_allocator \<times> 'a store \<Rightarrow>
     (pointer, my_allocator \<times> 'a store) result" where
  "traits_allocate ChunkSize sizeof_T n st =
     (case allocate ChunkSize sizeof_T n st of
        Returns p (a, s) \<Rightarrow> Returns p (a, s\<lparr>trace := trace s @ [EvAllocate n p]\<rparr>)
      | Throws e st' \<Rightarrow> Throws e st'
      | Undefined \<Rightarrow> Undefined
      | Terminates \<Rightarrow> Terminates)"

definition traits_deallocate ::
  "pointer \<Rightarrow> size_type \<Rightarrow> my_allocator \<times> 'a store \<Rightarrow> my_allocator \<times> 'a store" where
  "traits_deallocate p n = (\<lambda>(a, s). (deallocate a p n, s\<lparr>trace := trace s @ [EvDeallocate p n]\<rparr>))"

definition traits_construct :: "pointer \<Rightarrow> exn + 'a \<Rightarrow> 'a store \<Rightarrow> (unit, 'a store) result" where
  "traits_construct p made s =
     (case construct p made s of
        Returns u s' \<Rightarrow> Returns () (s'\<lparr>trace := trace s' @ [EvConstruct p]\<rparr>)
      | Throws e s' \<Rightarrow> Throws e (s'\<lparr>trace := trace s' @ [EvConstruct p]\<rparr>)
      | Undefined \<Rightarrow> Undefined
      | Terminates \<Rightarrow> Terminates)"

definition traits_destroy :: "pointer \<Rightarrow> 'a store \<Rightarrow> 'a store" where
  "traits_destroy p s = s\<lparr>mem := destroy p (mem s), trace := trace s @ [EvDestroy p]\<rparr>"

text \<open>\<^verbatim>\<open>my_container() : head_(nullptr), tail_(nullptr), size_(0)\<close>.\<close>

definition my_container_default :: my_container where
  "my_container_default =
     \<lparr>head_m = nullptr, tail_m = nullptr, size_m = 0, allocator_m = my_allocator_default\<rparr>"

text \<open>
  \<^verbatim>\<open>void push_back(const T& value)\<close>. \<open>copy_T\<close> is the copy constructor of \<open>T\<close>, which
  may throw; \<open>sizeof_Node\<close> is \<^verbatim>\<open>sizeof(Node)\<close>. \<^verbatim>\<open>tail_->next = new_node\<close> writes
  through \<^verbatim>\<open>tail_\<close>.
\<close>

definition push_back ::
  "size_type \<Rightarrow> size_type \<Rightarrow> ('v \<Rightarrow> exn + 'v) \<Rightarrow> 'v \<Rightarrow> my_container \<times> 'v Node store \<Rightarrow>
     (unit, my_container \<times> 'v Node store) result" where
  "push_back ChunkSize sizeof_Node copy_T v = (\<lambda>(c, s).
     case traits_allocate ChunkSize sizeof_Node 1 (allocator_m c, s) of
       Undefined \<Rightarrow> Undefined
     | Terminates \<Rightarrow> Terminates
     | Throws e (a, s1) \<Rightarrow> Throws e (c\<lparr>allocator_m := a\<rparr>, s1)
     | Returns new_node (a, s1) \<Rightarrow>
         (case traits_construct new_node (Node_ctor (copy_T v)) s1 of
            Undefined \<Rightarrow> Undefined
          | Terminates \<Rightarrow> Terminates
          | Throws e s2 \<Rightarrow>
              (case traits_deallocate new_node 1 (a, s2) of
                 (a3, s3) \<Rightarrow> Throws e (c\<lparr>allocator_m := a3\<rparr>, s3))
          | Returns u s2 \<Rightarrow>
              if head_m c = nullptr
              then Returns ()
                     (c\<lparr>head_m := new_node, tail_m := new_node, size_m := size_m c + 1,
                        allocator_m := a\<rparr>, s2)
              else (case mem s2 (tail_m c) of
                      None \<Rightarrow> Undefined
                    | Some t \<Rightarrow>
                        Returns ()
                          (c\<lparr>tail_m := new_node, size_m := size_m c + 1, allocator_m := a\<rparr>,
                           s2\<lparr>mem := (mem s2)(tail_m c := Some (t\<lparr>next := new_node\<rparr>))\<rparr>))))"

text \<open>
  \<^verbatim>\<open>void emplace_back(Args&&... args)\<close>. \<open>make_T\<close> is the constructor of \<open>T\<close> that the
  arguments select.
\<close>

definition emplace_back ::
  "size_type \<Rightarrow> size_type \<Rightarrow> ('g \<Rightarrow> exn + 'v) \<Rightarrow> 'g \<Rightarrow> my_container \<times> 'v Node store \<Rightarrow>
     (unit, my_container \<times> 'v Node store) result" where
  "emplace_back ChunkSize sizeof_Node make_T args = (\<lambda>(c, s).
     case traits_allocate ChunkSize sizeof_Node 1 (allocator_m c, s) of
       Undefined \<Rightarrow> Undefined
     | Terminates \<Rightarrow> Terminates
     | Throws e (a, s1) \<Rightarrow> Throws e (c\<lparr>allocator_m := a\<rparr>, s1)
     | Returns new_node (a, s1) \<Rightarrow>
         (case traits_construct new_node (Node_ctor (make_T args)) s1 of
            Undefined \<Rightarrow> Undefined
          | Terminates \<Rightarrow> Terminates
          | Throws e s2 \<Rightarrow>
              (case traits_deallocate new_node 1 (a, s2) of
                 (a3, s3) \<Rightarrow> Throws e (c\<lparr>allocator_m := a3\<rparr>, s3))
          | Returns u s2 \<Rightarrow>
              if head_m c = nullptr
              then Returns ()
                     (c\<lparr>head_m := new_node, tail_m := new_node, size_m := size_m c + 1,
                        allocator_m := a\<rparr>, s2)
              else (case mem s2 (tail_m c) of
                      None \<Rightarrow> Undefined
                    | Some t \<Rightarrow>
                        Returns ()
                          (c\<lparr>tail_m := new_node, size_m := size_m c + 1, allocator_m := a\<rparr>,
                           s2\<lparr>mem := (mem s2)(tail_m c := Some (t\<lparr>next := new_node\<rparr>))\<rparr>))))"

text \<open>
  The \<^verbatim>\<open>while (head_)\<close> loop of \<^verbatim>\<open>clear\<close>; \<open>hd_p\<close> is \<^verbatim>\<open>head_\<close>. The loop need not
  end (\<open>None\<close>) when the links form a cycle.
\<close>

partial_function (option) clear_loop ::
  "pointer \<Rightarrow> my_allocator \<Rightarrow> 'v Node store \<Rightarrow>
     (pointer, my_allocator \<times> 'v Node store) result option" where
  "clear_loop hd_p a s =
     (if hd_p = nullptr then Some (Returns hd_p (a, s))
      else (case mem s hd_p of
              None \<Rightarrow> Some Undefined
            | Some node \<Rightarrow>
                (case traits_deallocate hd_p 1 (a, traits_destroy hd_p s) of
                   (a2, s2) \<Rightarrow> clear_loop (next node) a2 s2)))"

declare clear_loop.simps [code]

text \<open>\<^verbatim>\<open>void clear() noexcept\<close>.\<close>

definition clear ::
  "my_container \<times> 'v Node store \<Rightarrow> (unit, my_container \<times> 'v Node store) result option" where
  "clear = (\<lambda>(c, s).
     case clear_loop (head_m c) (allocator_m c) s of
       None \<Rightarrow> None
     | Some (Returns hd_p (a, s')) \<Rightarrow>
         Some (Returns ()
                 (c\<lparr>head_m := nullptr, tail_m := nullptr, size_m := 0, allocator_m := a\<rparr>, s'))
     | Some (Throws e st) \<Rightarrow> Some Terminates
     | Some Undefined \<Rightarrow> Some Undefined
     | Some Terminates \<Rightarrow> Some Terminates)"

definition container_size :: "my_container \<Rightarrow> size_type" where
  "container_size c = size_m c"

definition container_empty :: "my_container \<Rightarrow> bool" where
  "container_empty c = (size_m c = 0)"

text \<open>\<^verbatim>\<open>begin()\<close> is \<^verbatim>\<open>iterator(head_)\<close>, \<^verbatim>\<open>end()\<close> is \<^verbatim>\<open>iterator(nullptr)\<close>.\<close>

definition begin_it :: "my_container \<Rightarrow> pointer" where
  "begin_it c = head_m c"

definition end_it :: "my_container \<Rightarrow> pointer" where
  "end_it c = nullptr"

text \<open>
  Forward iteration \<^verbatim>\<open>for (it = begin(); it != end(); ++it) visit(*it)\<close>, from the
  iterator \<open>it\<close> to the iterator \<open>e\<close>, collecting the visited values: \<^verbatim>\<open>operator*\<close> reads
  \<^verbatim>\<open>current_->data\<close> and \<^verbatim>\<open>operator++\<close> reads \<^verbatim>\<open>current_->next\<close>.
\<close>

partial_function (option) iterate ::
  "'v Node store \<Rightarrow> pointer \<Rightarrow> pointer \<Rightarrow> 'v list \<Rightarrow> ('v list, unit) result option" where
  "iterate s it e visited =
     (if it = e then Some (Returns visited ())
      else (case mem s it of
              None \<Rightarrow> Some Undefined
            | Some node \<Rightarrow> iterate s (next node) e (visited @ [data_n node])))"

declare iterate.simps [code]

definition elements :: "my_container \<times> 'v Node store \<Rightarrow> ('v list, unit) result option" where
  "elements = (\<lambda>(c, s). iterate s (begin_it c) (end_it c) [])"

text \<open>A run of \<^verbatim>\<open>push_back\<close> calls, one per value; it stops at the first call that fails.\<close>

fun push_back_all ::
  "size_type \<Rightarrow> size_type \<Rightarrow> ('v \<Rightarrow> exn + 'v) \<Rightarrow> 'v list \<Rightarrow> my_container \<times> 'v Node store \<Rightarrow>
     (unit, my_container \<times> 'v Node store) result" where
  "push_back_all ChunkSize sizeof_Node copy_T [] st = Returns () st"
| "push_back_all ChunkSize sizeof_Node copy_T (v # vs) st =
     (case push_back ChunkSize sizeof_Node copy_T v st of
        Returns u st' \<Rightarrow> push_back_all ChunkSize sizeof_Node copy_T vs st'
      | Throws e st' \<Rightarrow> Throws e st'
      | Undefined \<Rightarrow> Undefined
      | Terminates \<Rightarrow> Terminates)"

text \<open>
  \<^verbatim>\<open>~my_allocator()\<close>: for every chunk in order, the destructor of \<open>T\<close> runs on each of
  the slots \<open>[0, used)\<close> and then \<^verbatim>\<open>operator delete(chunk.data)\<close> releases the chunk; at
  the end the vector releases its buffer.
\<close>

definition destroy_used :: "Chunk \<Rightarrow> (pointer \<Rightarrow> 'a option) \<Rightarrow> (pointer \<Rightarrow> 'a option)" where
  "destroy_used chunk m = fold (\<lambda>i. destroy (slot_of chunk i)) [0..<unat (used chunk)] m"

fun delete_chunks :: "Chunk list \<Rightarrow> 'a store \<Rightarrow> (unit, 'a store) result" where
  "delete_chunks [] s = Returns () s"
| "delete_chunks (chunk # rest) s =
     (case operator_delete (data chunk) (s\<lparr>mem := destroy_used chunk (mem s)\<rparr>) of
        Returns u s' \<Rightarrow> delete_chunks rest s'
      | Throws e s' \<Rightarrow> Terminates
      | Undefined \<Rightarrow> Undefined
      | Terminates \<Rightarrow> Terminates)"

definition my_allocator_dtor :: "my_allocator \<Rightarrow> 'a store \<Rightarrow> (unit, 'a store) result" where
  "my_allocator_dtor a s =
     (case delete_chunks (chunks_m a) s of
        Returns u s' \<Rightarrow> Returns () (s'\<lparr>avail := avail s' + chunks_cap a * sizeof_Chunk\<rparr>)
      | Throws e s' \<Rightarrow> Terminates
      | Undefined \<Rightarrow> Undefined
      | Terminates \<Rightarrow> Terminates)"

text \<open>
  \<^verbatim>\<open>my_allocator(const my_allocator&) noexcept = default\<close> copies \<^verbatim>\<open>chunks_\<close> member by
  member: the copy holds the same chunk records, with the same \<^verbatim>\<open>data\<close> pointers, in
  a buffer of its own that has room for just these records (none for an empty vector).
  When the free store cannot supply the buffer, \<^verbatim>\<open>std::bad_alloc\<close> leaves a function
  declared \<^verbatim>\<open>noexcept\<close>. The class declares no move constructor, so
  \<^verbatim>\<open>std::move(other.allocator_)\<close> selects this copy too.
\<close>

definition my_allocator_copy :: "my_allocator \<Rightarrow> 'a store \<Rightarrow> (my_allocator, 'a store) result" where
  "my_allocator_copy other s =
     (let n = length (chunks_m other) in
      if n = 0 then Returns \<lparr>chunks_m = [], chunks_cap = 0\<rparr> s
      else if n * sizeof_Chunk \<le> avail s
      then Returns \<lparr>chunks_m = chunks_m other, chunks_cap = n\<rparr>
             (s\<lparr>avail := avail s - n * sizeof_Chunk\<rparr>)
      else Terminates)"

text \<open>
  The implicit copy assignment of \<^verbatim>\<open>my_allocator\<close>, which \<^verbatim>\<open>allocator_ = ...\<close> selects
  for an lvalue and for \<^verbatim>\<open>std::move(...)\<close> alike, assigns the vector: the records of
  \<open>other\<close> replace those of \<open>this\<close>, in the old buffer when they fit, in a new one of just
  their size otherwise. It may throw \<^verbatim>\<open>std::bad_alloc\<close>, and then nothing has changed.
  The chunks that the old records named are not released.
\<close>

definition my_allocator_assign ::
  "my_allocator \<Rightarrow> my_allocator \<Rightarrow> 'a store \<Rightarrow> (my_allocator, 'a store) result" where
  "my_allocator_assign this other s =
     (let n = length (chunks_m other) in
      if n \<le> chunks_cap this then Returns (this\<lparr>chunks_m := chunks_m other\<rparr>) s
      else if n * sizeof_Chunk \<le> avail s
      then Returns \<lparr>chunks_m = chunks_m other, chunks_cap = n\<rparr>
             (s\<lparr>avail := avail s - n * sizeof_Chunk + chunks_cap this * sizeof_Chunk\<rparr>)
      else Throws bad_alloc s)"

text \<open>
  \<^verbatim>\<open>template <typename U> my_allocator(const my_allocator<U, ChunkSize>&) noexcept {}\<close>: the
  allocator converted from one for another element type has no chunks.
\<close>

definition my_allocator_convert :: "my_allocator \<Rightarrow> my_allocator" where
  "my_allocator_convert other = \<lparr>chunks_m = [], chunks_cap = 0\<rparr>"

text \<open>
  \<^verbatim>\<open>explicit my_container(const Allocator& alloc)\<close> and
  \<^verbatim>\<open>my_container(std::initializer_list<T> init, const Allocator& alloc)\<close>: the node
  allocator is converted from \<open>alloc\<close>. When a \<^verbatim>\<open>push_back\<close> in the body of a
  constructor throws, the container does not come to exist: its member \<^verbatim>\<open>allocator_\<close>
  is destroyed on the way out, \<^verbatim>\<open>~my_container\<close> is not run.
\<close>

definition my_container_alloc :: "my_allocator \<Rightarrow> my_container" where
  "my_container_alloc alloc =
     \<lparr>head_m = nullptr, tail_m = nullptr, size_m = 0, allocator_m = my_allocator_convert alloc\<rparr>"

definition unwind_constructor ::
  "(unit, my_container \<times> 'v Node store) result \<Rightarrow> (unit, my_container \<times> 'v Node store) result" where
  "unwind_constructor r =
     (case r of
        Throws e (c, s) \<Rightarrow>
          (case my_allocator_dtor (allocator_m c) s of
             Returns u s' \<Rightarrow> Throws e (c, s')
           | Throws e' s' \<Rightarrow> Terminates
           | Undefined \<Rightarrow> Undefined
           | Terminates \<Rightarrow> Terminates)
      | Returns u st \<Rightarrow> Returns u st
      | Undefined \<Rightarrow> Undefined
      | Terminates \<Rightarrow> Terminates)"

definition my_container_init_list ::
  "size_type \<Rightarrow> size_type \<Rightarrow> ('v \<Rightarrow> exn + 'v) \<Rightarrow> 'v list \<Rightarrow> my_allocator \<Rightarrow> 'v Node store \<Rightarrow>
     (unit, my_container \<times> 'v Node store) result" where
  "my_container_init_list ChunkSize sizeof_Node copy_T init alloc s =
     unwind_constructor
       (push_back_all ChunkSize sizeof_Node copy_T init (my_container_alloc alloc, s))"

text \<open>
  The loop \<^verbatim>\<open>for (const auto& item : other) push_back(item)\<close> of the copy constructor and
  of copy assignment: \<open>it\<close> runs over the nodes of \<open>other\<close>, \<open>c\<close> is \<^verbatim>\<open>*this\<close>.
\<close>

partial_function (option) push_back_range ::
  "size_type \<Rightarrow> size_type \<Rightarrow> ('v \<Rightarrow> exn + 'v) \<Rightarrow> pointer \<Rightarrow> my_container \<Rightarrow> 'v Node store \<Rightarrow>
     (unit, my_container \<times> 'v Node store) result option" where
  "push_back_range ChunkSize sizeof_Node copy_T it c s =
     (if it = nullptr then Some (Returns () (c, s))
      else (case mem s it of
              None \<Rightarrow> Some Undefined
            | Some node \<Rightarrow>
                (case push_back ChunkSize sizeof_Node copy_T (data_n node) (c, s) of
                   Undefined \<Rightarrow> Some Undefined
                 | Terminates \<Rightarrow> Some Terminates
                 | Throws e st \<Rightarrow> Some (Throws e st)
                 | Returns u (c', s') \<Rightarrow>
                     (case mem s' it of
                        None \<Rightarrow> Some Undefined
                      | Some node' \<Rightarrow>
                          push_back_range ChunkSize sizeof_Node copy_T (next node') c' s'))))"

declare push_back_range.simps [code]

text \<open>
  \<^verbatim>\<open>my_container(const my_container& other)\<close>;
  \<^verbatim>\<open>select_on_container_copy_construction\<close> is the default of \<^verbatim>\<open>std::allocator_traits\<close>,
  a copy of the allocator. On a throw the result carries the half-built container, which
  no longer exists, and the store after its allocator has been destroyed.
\<close>

definition copy_constructor ::
  "size_type \<Rightarrow> size_type \<Rightarrow> ('v \<Rightarrow> exn + 'v) \<Rightarrow> my_container \<Rightarrow> 'v Node store \<Rightarrow>
     (unit, my_container \<times> 'v Node store) result option" where
  "copy_constructor ChunkSize sizeof_Node copy_T other s =
     (case my_allocator_copy (allocator_m other) s of
        Returns a0 s0 \<Rightarrow>
          map_option unwind_constructor
            (push_back_range ChunkSize sizeof_Node copy_T (head_m other)
               \<lparr>head_m = nullptr, tail_m = nullptr, size_m = 0, allocator_m = a0\<rparr> s0)
      | Throws e s0 \<Rightarrow> Some Terminates
      | Undefined \<Rightarrow> Some Undefined
      | Terminates \<Rightarrow> Some Terminates)"

text \<open>
  \<^verbatim>\<open>my_container(my_container&& other) noexcept\<close>: the new container and what is left of
  \<open>other\<close>, which keeps its allocator with all chunk records.
\<close>

definition move_constructor ::
  "my_container \<Rightarrow> 'v Node store \<Rightarrow> (my_container \<times> my_container, 'v Node store) result" where
  "move_constructor other s =
     (case my_allocator_copy (allocator_m other) s of
        Returns a0 s0 \<Rightarrow>
          Returns (\<lparr>head_m = head_m other, tail_m = tail_m other, size_m = size_m other,
                     allocator_m = a0\<rparr>,
                   other\<lparr>head_m := nullptr, tail_m := nullptr, size_m := 0\<rparr>) s0
      | Throws e s0 \<Rightarrow> Terminates
      | Undefined \<Rightarrow> Undefined
      | Terminates \<Rightarrow> Terminates)"

text \<open>
  \<^verbatim>\<open>~my_container()\<close> is \<^verbatim>\<open>clear()\<close>; after it the member \<^verbatim>\<open>allocator_\<close> is
  destroyed.
\<close>

definition my_container_dtor ::
  "my_container \<times> 'v Node store \<Rightarrow> (unit, 'v Node store) result option" where
  "my_container_dtor = (\<lambda>(c, s).
     case clear (c, s) of
       None \<Rightarrow> None
     | Some (Returns u (c', s')) \<Rightarrow> Some (my_allocator_dtor (allocator_m c') s')
     | Some (Throws e st) \<Rightarrow> Some Terminates
     | Some Undefined \<Rightarrow> Some Undefined
     | Some Terminates \<Rightarrow> Some Terminates)"

section \<open>Container objects and programs\<close>

text \<open>
  Container objects live at addresses and share one store. The assignment operators
  compare \<^verbatim>\<open>this\<close> with \<^verbatim>\<open>&other\<close>, so they take the two addresses.
\<close>

record 'v world =
  objs :: "nat \<Rightarrow> my_container option"
  sto :: "'v Node store"

text \<open>
  \<^verbatim>\<open>my_container& operator=(const my_container& other)\<close>. When assigning the allocator
  or a \<^verbatim>\<open>push_back\<close> throws, \<^verbatim>\<open>*this\<close> stays as far as the assignment has come.
\<close>

definition copy_assign ::
  "size_type \<Rightarrow> size_type \<Rightarrow> ('v \<Rightarrow> exn + 'v) \<Rightarrow> nat \<Rightarrow> nat \<Rightarrow> 'v world \<Rightarrow>
     (unit, 'v world) result option" where
  "copy_assign ChunkSize sizeof_Node copy_T this other w =
     (if this \<noteq> other then
        (case (objs w this, objs w other) of
           (Some c, Some ot) \<Rightarrow>
             (case clear (c, sto w) of
                None \<Rightarrow> None
              | Some (Returns u (c1, s1)) \<Rightarrow>
                  (case my_allocator_assign (allocator_m c1) (allocator_m ot) s1 of
                     Returns a2 s2 \<Rightarrow>
                       (case push_back_range ChunkSize sizeof_Node copy_T (head_m ot)
                               (c1\<lparr>allocator_m := a2\<rparr>) s2 of
                          None \<Rightarrow> None
                        | Some (Returns u (c3, s3)) \<Rightarrow>
                            Some (Returns () (w\<lparr>objs := (objs w)(this := Some c3), sto := s3\<rparr>))
                        | Some (Throws e (c3, s3)) \<Rightarrow>
                            Some (Throws e (w\<lparr>objs := (objs w)(this := Some c3), sto := s3\<rparr>))
                        | Some Undefined \<Rightarrow> Some Undefined
                        | Some Terminates \<Rightarrow> Some Terminates)
                   | Throws e s2 \<Rightarrow>
                       Some (Throws e (w\<lparr>objs := (objs w)(this := Some c1), sto := s2\<rparr>))
                   | Undefined \<Rightarrow> Some Undefined
                   | Terminates \<Rightarrow> Some Terminates)
              | Some (Throws e st') \<Rightarrow> Some Terminates
              | Some Undefined \<Rightarrow> Some Undefined
              | Some Terminates \<Rightarrow> Some Terminates)
         | _ \<Rightarrow> Some Undefined)
      else Some (Returns () w))"

text \<open>\<^verbatim>\<open>my_container& operator=(my_container&& other) noexcept\<close>.\<close>

definition move_assign :: "nat \<Rightarrow> nat \<Rightarrow> 'v world \<Rightarrow> (unit, 'v world) result option" where
  "move_assign this other w =
     (if this \<noteq> other then
        (case (objs w this, objs w other) of
           (Some c, Some ot) \<Rightarrow>
             (case clear (c, sto w) of
                None \<Rightarrow> None
              | Some (Returns u (c1, s1)) \<Rightarrow>
                  (case my_allocator_assign (allocator_m c1) (allocator_m ot) s1 of
                     Returns a2 s2 \<Rightarrow>
                       Some (Returns ()
                         (w\<lparr>objs := (objs w)
                               (this := Some (c1\<lparr>head_m := head_m ot, tail_m := tail_m ot,
                                                 size_m := size_m ot, allocator_m := a2\<rparr>),
                                other := Some (ot\<lparr>head_m := nullptr, tail_m := nullptr,
                                                  size_m := 0\<rparr>)),
                            sto := s2\<rparr>))
                   | Throws e s2 \<Rightarrow> Some Terminates
                   | Undefined \<Rightarrow> Some Undefined
                   | Terminates \<Rightarrow> Some Terminates)
              | Some (Throws e st') \<Rightarrow> Some Terminates
              | Some Undefined \<Rightarrow> Some Undefined
              | Some Terminates \<Rightarrow> Some Terminates)
         | _ \<Rightarrow> Some Undefined)
      else Some (Returns () w))"

text \<open>
  The public operations as statements of a client program; \<open>this\<close> comes first. A
  statement on an address that holds no container is undefined. A copy construction
  that throws leaves no new container; the store is as the destruction of its allocator
  has left it. \<open>Destruct\<close> is the end of the lifetime of a container: \<^verbatim>\<open>~my_container\<close>
  runs and the object is gone.
\<close>

datatype ('v, 'g) stmt =
    Declare nat
  | PushBack nat 'v
  | EmplaceBack nat 'g
  | Clear nat
  | CopyConstruct nat nat
  | MoveConstruct nat nat
  | CopyAssign nat nat
  | MoveAssign nat nat
  | Destruct nat

definition on_object ::
  "nat \<Rightarrow> (my_container \<times> 'v Node store \<Rightarrow> (unit, my_container \<times> 'v Node store) result) \<Rightarrow>
     'v world \<Rightarrow> (unit, 'v world) result" where
  "on_object this f w =
     (case objs w this of
        None \<Rightarrow> Undefined
      | Some c \<Rightarrow>
          (case f (c, sto w) of
             Returns u (c', s') \<Rightarrow> Returns () (w\<lparr>objs := (objs w)(this := Some c'), sto := s'\<rparr>)
           | Throws e (c', s') \<Rightarrow> Throws e (w\<lparr>objs := (objs w)(this := Some c'), sto := s'\<rparr>)
           | Undefined \<Rightarrow> Undefined
           | Terminates \<Rightarrow> Terminates))"

fun exec ::
  "size_type \<Rightarrow> size_type \<Rightarrow> ('v \<Rightarrow> exn + 'v) \<Rightarrow> ('g \<Rightarrow> exn + 'v) \<Rightarrow> ('v, 'g) stmt \<Rightarrow>
     'v world \<Rightarrow> (unit, 'v world) result option" where
  "exec ChunkSize sizeof_Node copy_T make_T (Declare this) w =
     Some (Returns () (w\<lparr>objs := (objs w)(this := Some my_container_default)\<rparr>))"
| "exec ChunkSize sizeof_Node copy_T make_T (PushBack this v) w =
     Some (on_object this (push_back ChunkSize sizeof_Node copy_T v) w)"
| "exec ChunkSize sizeof_Node copy_T make_T (EmplaceBack this args) w =
     Some (on_object this (emplace_back ChunkSize sizeof_Node make_T args) w)"
| "exec ChunkSize sizeof_Node copy_T make_T (Clear this) w =
     (case objs w this of
        None \<Rightarrow> Some Undefined
      | Some c \<Rightarrow>
          (case clear (c, sto w) of
             None \<Rightarrow> None
           | Some (Returns u (c', s')) \<Rightarrow>
               Some (Returns () (w\<lparr>objs := (objs w)(this := Some c'), sto := s'\<rparr>))
           | Some (Throws e st') \<Rightarrow> Some Terminates
           | Some Undefined \<Rightarrow> Some Undefined
           | Some Terminates \<Rightarrow> Some Terminates))"
| "exec ChunkSize sizeof_Node copy_T make_T (CopyConstruct this other) w =
     (case objs w other of
        None \<Rightarrow> Some Undefined
      | Some ot \<Rightarrow>
          (case copy_constructor ChunkSize sizeof_Node copy_T ot (sto w) of
             None \<Rightarrow> None
           | Some (Returns u (c', s')) \<Rightarrow>
               Some (Returns () (w\<lparr>objs := (objs w)(this := Some c'), sto := s'\<rparr>))
           | Some (Throws e (c', s')) \<Rightarrow> Some (Throws e (w\<lparr>sto := s'\<rparr>))
           | Some Undefined \<Rightarrow> Some Undefined
           | Some Terminates \<Rightarrow> Some Terminates))"
| "exec ChunkSize sizeof_Node copy_T make_T (MoveConstruct this other) w =
     (case objs w other of
        None \<Rightarrow> Some Undefined
      | Some ot \<Rightarrow>
          (case move_constructor ot (sto w) of
             Returns (c', ot') s' \<Rightarrow>
               Some (Returns ()
                       (w\<lparr>objs := (objs w)(other := Some ot', this := Some c'), sto := s'\<rparr>))
           | Throws e s' \<Rightarrow> Some Terminates
           | Undefined \<Rightarrow> Some Undefined
           | Terminates \<Rightarrow> Some Terminates))"
| "exec ChunkSize sizeof_Node copy_T make_T (CopyAssign this other) w =
     copy_assign ChunkSize sizeof_Node copy_T this other w"
| "exec ChunkSize sizeof_Node copy_T make_T (MoveAssign this other) w =
     move_assign this other w"
| "exec ChunkSize sizeof_Node copy_T make_T (Destruct this) w =
     (case objs w this of
        None \<Rightarrow> Some Undefined
      | Some c \<Rightarrow>
          (case my_container_dtor (c, sto w) of
             None \<Rightarrow> None
           | Some (Returns u s') \<Rightarrow>
               Some (Returns () (w\<lparr>objs := (objs w)(this := None), sto := s'\<rparr>))
           | Some (Throws e s') \<Rightarrow> Some Terminates
           | Some Undefined \<Rightarrow> Some Undefined
           | Some Terminates \<Rightarrow> Some Terminates))"

text \<open>A program runs its statements in order and stops at the first that does not return.\<close>

fun exec_all ::
  "size_type \<Rightarrow> size_type \<Rightarrow> ('v \<Rightarrow> exn + 'v) \<Rightarrow> ('g \<Rightarrow> exn + 'v) \<Rightarrow> ('v, 'g) stmt list \<Rightarrow>
     'v world \<Rightarrow> (unit, 'v world) result option" where
  "exec_all ChunkSize sizeof_Node copy_T make_T [] w = Some (Returns () w)"
| "exec_all ChunkSize sizeof_Node copy_T make_T (x # xs) w =
     (case exec ChunkSize sizeof_Node copy_T make_T x w of
        Some (Returns u w') \<Rightarrow> exec_all ChunkSize sizeof_Node copy_T make_T xs w'
      | r \<Rightarrow> r)"

definition empty_world :: "nat \<Rightarrow> nat \<Rightarrow> 'v world" where
  "empty_world nb av = \<lparr>objs = (\<lambda>x. None), sto = empty_store nb av\<rparr>"

section \<open>Invariants\<close>

text \<open>The slots handed out by a list of chunks: \<open>[base, base+used)\<close> of each.\<close>

definition slots :: "Chunk list \<Rightarrow> pointer set" where
  "slots cs = {slot_of c k | c k. c \<in> set cs \<and> k < unat (used c)}"

text \<open>
  The chunks of an allocator that has not been copied: each chunk starts a block of its
  own that the free store has handed out, and \<open>used \<le> capacity\<close>.
\<close>

definition alloc_ok :: "my_allocator \<Rightarrow> 'a store \<Rightarrow> bool" where
  "alloc_ok a s =
     ((\<forall>d \<in> set (map data (chunks_m a)).
         (case d of nullptr \<Rightarrow> False | Ptr b j \<Rightarrow> j = 0 \<and> b < next_block s))
      \<and> distinct (map data (chunks_m a))
      \<and> (\<forall>c \<in> set (chunks_m a). used c \<le> size_c c))"

text \<open>
  A pointer into a block that the free store has handed out and that has not been
  released: storage in which an object can be constructed. The chunks of an allocator
  are live when none of them has been released.
\<close>

definition in_live_block :: "'a store \<Rightarrow> pointer \<Rightarrow> bool" where
  "in_live_block s p = (case p of nullptr \<Rightarrow> False | Ptr b i \<Rightarrow> blocks s b \<noteq> None)"

definition chunks_live :: "my_allocator \<Rightarrow> 'a store \<Rightarrow> bool" where
  "chunks_live a s = (\<forall>c \<in> set (chunks_m a). in_live_block s (data c))"

text \<open>
  The invariant of a chunk as the data model states it: \<open>used \<le> capacity\<close>, a live
  element in every slot of \<open>[base, base+used)\<close>, none in \<open>[base+used, base+capacity)\<close>.
\<close>

definition chunk_live :: "my_allocator \<times> 'a store \<Rightarrow> bool" where
  "chunk_live = (\<lambda>(a, s). \<forall>c \<in> set (chunks_m a).
     used c \<le> size_c c
     \<and> (\<forall>i \<in> {..<unat (used c)}. mem s (slot_of c i) \<noteq> None)
     \<and> (\<forall>i \<in> {unat (used c)..<unat (size_c c)}. mem s (slot_of c i) = None))"

text \<open>
  What holds instead: \<open>used \<le> capacity\<close>; every chunk is a block that the free store
  has handed out; no element lives in \<open>[base+used, base+capacity)\<close>; and every live element
  lies in a slot that \<^verbatim>\<open>allocate\<close> has handed out.
\<close>

definition chunk_reserved :: "my_allocator \<times> 'a store \<Rightarrow> bool" where
  "chunk_reserved = (\<lambda>(a, s).
     (\<forall>c \<in> set (chunks_m a).
        used c \<le> size_c c
        \<and> (case data c of nullptr \<Rightarrow> False | Ptr b j \<Rightarrow> b < next_block s)
        \<and> (\<forall>i \<in> {unat (used c)..<unat (size_c c)}. mem s (slot_of c i) = None))
     \<and> (\<forall>p. mem s p \<noteq> None \<longrightarrow> handed_out a p))"

text \<open>
  No space is reclaimed between an allocator state and a later one: every chunk is still
  there, at its place in the sequence, with its base and capacity, and its used count
  has not gone down.
\<close>

definition never_reclaimed :: "my_allocator \<Rightarrow> my_allocator \<Rightarrow> bool" where
  "never_reclaimed a a' =
     (length (chunks_m a) \<le> length (chunks_m a')
      \<and> (\<forall>i \<in> {..<length (chunks_m a)}.
            data (chunks_m a' ! i) = data (chunks_m a ! i)
            \<and> size_c (chunks_m a' ! i) = size_c (chunks_m a ! i)
            \<and> used (chunks_m a ! i) \<le> used (chunks_m a' ! i)))"

text \<open>
  \<open>chain m p xs\<close>: following \<^verbatim>\<open>next\<close> from \<open>p\<close> visits live nodes at the addresses
  \<open>map fst xs\<close>, holding the values \<open>map snd xs\<close>, and then reaches \<^verbatim>\<open>nullptr\<close>.
\<close>

fun chain :: "(pointer \<Rightarrow> 'v Node option) \<Rightarrow> pointer \<Rightarrow> (pointer \<times> 'v) list \<Rightarrow> bool" where
  "chain m p [] = (p = nullptr)"
| "chain m p (x # xs) =
     (p = fst x \<and> p \<noteq> nullptr \<and>
      (case m p of None \<Rightarrow> False | Some node \<Rightarrow> data_n node = snd x \<and> chain m (next node) xs))"

text \<open>
  A container on its own allocator: its nodes are the chain \<open>xs\<close>, in storage that its
  allocator has handed out.
\<close>

definition wf_container :: "my_container \<times> 'v Node store \<Rightarrow> (pointer \<times> 'v) list \<Rightarrow> bool" where
  "wf_container = (\<lambda>(c, s) xs.
     chain (mem s) (head_m c) xs
     \<and> tail_m c = (if xs = [] then nullptr else fst (last xs))
     \<and> size_m c = of_nat (length xs)
     \<and> alloc_ok (allocator_m c) s
     \<and> (\<forall>x \<in> set xs. handed_out (allocator_m c) (fst x)))"

text \<open>The node reached from \<open>p\<close> after \<open>k\<close> steps along \<^verbatim>\<open>next\<close>.\<close>

fun follow :: "(pointer \<Rightarrow> 'v Node option) \<Rightarrow> pointer \<Rightarrow> nat \<Rightarrow> pointer option" where
  "follow m p 0 = Some p"
| "follow m p (Suc k) = (case m p of None \<Rightarrow> None | Some node \<Rightarrow> follow m (next node) k)"

text \<open>
  The invariant of the container handle as the data model states it: count is 0 iff
  head and tail are both none; if count is positive, the link of tail is none and
  \<open>count - 1\<close> steps from head reach tail.
\<close>

definition container_inv :: "my_container \<times> 'v Node store \<Rightarrow> bool" where
  "container_inv = (\<lambda>(c, s).
     ((size_m c = 0) = (head_m c = nullptr \<and> tail_m c = nullptr))
     \<and> (size_m c \<noteq> 0 \<longrightarrow>
          (case mem s (tail_m c) of None \<Rightarrow> False | Some t \<Rightarrow> next t = nullptr)
          \<and> follow (mem s) (head_m c) (unat (size_m c) - 1) = Some (tail_m c)))"

section \<open>First fit\<close>

lemma find_fit_None: "find_fit cs n = None \<longleftrightarrow> (\<forall>c \<in> set cs. \<not> n \<le> size_c c - used c)"
  by (induction cs) (auto split: option.splits)

lemma find_fit_first:
  assumes "i < length cs" and "n \<le> size_c (cs ! i) - used (cs ! i)"
    and "\<forall>j < i. \<not> n \<le> size_c (cs ! j) - used (cs ! j)"
  shows "find_fit cs n =
           Some (ptr_add (data (cs ! i)) (used (cs ! i)), cs[i := (cs ! i)\<lparr>used := used (cs ! i) + n\<rparr>])"
  using assms
proof (induction cs arbitrary: i)
  case Nil
  then show ?case by simp
next
  case (Cons c cs)
  show ?case
  proof (cases i)
    case 0
    with Cons.prems show ?thesis by simp
  next
    case (Suc k)
    from Cons.prems Suc have skip: "\<not> n \<le> size_c c - used c" by auto
    from Cons.prems Suc have "k < length cs" "n \<le> size_c (cs ! k) - used (cs ! k)"
      "\<forall>j < k. \<not> n \<le> size_c (cs ! j) - used (cs ! j)" by auto
    from Cons.IH [OF this] skip Suc show ?thesis by simp
  qed
qed

lemma operator_new_cases:
  "operator_new bytes s = Throws bad_alloc s \<and> avail s < unat bytes \<or>
   (\<exists>s'. operator_new bytes s = Returns (Ptr (next_block s) 0) s' \<and> unat bytes \<le> avail s
      \<and> mem s' = mem s \<and> trace s' = trace s \<and> next_block s' = Suc (next_block s)
      \<and> blocks s' = (blocks s)(next_block s := Some (unat bytes))
      \<and> avail s' = avail s - unat bytes)"
  by (simp add: operator_new_def)

lemma vector_push_back_cases:
  "vector_push_back a chunk s = Throws bad_alloc (a, s) \<or>
   (\<exists>a' s'. vector_push_back a chunk s = Returns () (a', s')
      \<and> chunks_m a' = chunks_m a @ [chunk]
      \<and> mem s' = mem s \<and> trace s' = trace s \<and> next_block s' = next_block s
      \<and> blocks s' = blocks s)"
  by (simp add: vector_push_back_def Let_def)

section \<open>The allocator keeps its chunks apart\<close>

lemma used_add_no_wrap:
  fixes u n sz :: size_type
  assumes "u \<le> sz" and "n \<le> sz - u"
  shows "unat (u + n) = unat u + unat n" and "u + n \<le> sz"
proof -
  from assms(1) have "unat (sz - u) = unat sz - unat u" by (rule unat_sub)
  with assms have le: "unat u + unat n \<le> unat sz"
    by (simp add: word_le_nat_alt)
  have "unat sz < 2 ^ LENGTH(64)" by (rule unsigned_less)
  with le have "unat u + unat n < 2 ^ LENGTH(64)" by linarith
  then show eq: "unat (u + n) = unat u + unat n" by (simp only: unat_add_lem)
  with le show "u + n \<le> sz" by (simp add: word_le_nat_alt)
qed

lemma ptr_add_slot: "ptr_add (data c) k = slot_of c (unat k)"
  by (cases "data c") (simp_all add: slot_of_def)

lemma slots_Nil: "slots [] = {}" by (simp add: slots_def)
lemma slots_Cons: "slots (c # cs) = {slot_of c k | k. k < unat (used c)} \<union> slots cs"
  by (auto simp: slots_def)
lemma slots_append: "slots (cs @ ds) = slots cs \<union> slots ds"
  by (auto simp: slots_def)

lemma slot_of_used_update: "slot_of (c\<lparr>used := u\<rparr>) k = slot_of c k"
  by (simp add: slot_of_def)

lemma handed_out_slots: "handed_out a p \<longleftrightarrow> p \<in> slots (chunks_m a)"
  by (auto simp: handed_out_def slots_def)

lemma find_fit_Some:
  assumes "find_fit cs n = Some (p, cs')" and "\<forall>c \<in> set cs. used c \<le> size_c c"
  shows "map data cs' = map data cs \<and> map size_c cs' = map size_c cs \<and> (\<forall>c \<in> set cs'. used c \<le> size_c c)
       \<and> length cs' = length cs \<and> (\<forall>i < length cs. used (cs ! i) \<le> used (cs' ! i))
       \<and> (\<exists>c \<in> set cs. p = slot_of c (unat (used c))
             \<and> slots cs' = slots cs \<union> {slot_of c (unat (used c) + k) | k. k < unat n})"
  using assms
proof (induction cs arbitrary: cs')
  case Nil then show ?case by simp
next
  case (Cons c cs)
  show ?case
  proof (cases "n \<le> size_c c - used c")
    case True
    from Cons.prems(2) have cu: "used c \<le> size_c c" by simp
    note nw = used_add_no_wrap [OF cu True]
    from True Cons.prems(1) have p: "p = slot_of c (unat (used c))" and cs': "cs' = c\<lparr>used := used c + n\<rparr> # cs"
      by (simp_all add: ptr_add_slot)
    have "{slot_of c k | k. k < unat (used c) + unat n} = {slot_of c k | k. k < unat (used c)} \<union> {slot_of c (unat (used c) + k) | k. k < unat n}"
      (is "?L = ?A \<union> ?B")
    proof (intro set_eqI iffI)
      fix q assume "q \<in> ?L"
      then obtain k where k: "q = slot_of c k" "k < unat (used c) + unat n" by auto
      show "q \<in> ?A \<union> ?B"
      proof (cases "k < unat (used c)")
        case True with k show ?thesis by auto
      next
        case False
        with k have "q = slot_of c (unat (used c) + (k - unat (used c)))" "k - unat (used c) < unat n" by auto
        then show ?thesis by blast
      qed
    next
      fix q assume "q \<in> ?A \<union> ?B"
      then show "q \<in> ?L" by auto
    qed
    then have sl: "slots cs' = slots (c # cs) \<union> {slot_of c (unat (used c) + k) | k. k < unat n}"
      by (simp add: cs' slots_Cons nw Un_ac slot_of_used_update)
    have mono: "\<forall>i < length (c # cs). used ((c # cs) ! i) \<le> used (cs' ! i)"
    proof (intro allI impI)
      fix i assume "i < length (c # cs)"
      show "used ((c # cs) ! i) \<le> used (cs' ! i)"
        by (cases i) (simp_all add: cs' word_le_nat_alt nw)
    qed
    from nw Cons.prems(2) p sl mono show ?thesis by (simp add: cs')
  next
    case False
    with Cons.prems(1) obtain r where r: "find_fit cs n = Some (p, r)" and cs': "cs' = c # r"
      by (auto split: option.splits)
    from Cons.prems(2) have "\<forall>c \<in> set cs. used c \<le> size_c c" by simp
    note IH = Cons.IH [OF r this]
    then obtain d where d: "d \<in> set cs" "p = slot_of d (unat (used d))"
      "slots r = slots cs \<union> {slot_of d (unat (used d) + k) | k. k < unat n}" by blast
    have mono: "\<forall>i < length (c # cs). used ((c # cs) ! i) \<le> used (cs' ! i)"
    proof (intro allI impI)
      fix i assume "i < length (c # cs)"
      with IH show "used ((c # cs) ! i) \<le> used (cs' ! i)"
        by (cases i) (simp_all add: cs')
    qed
    have "slots cs' = slots (c # cs) \<union> {slot_of d (unat (used d) + k) | k. k < unat n}"
      by (simp add: cs' slots_Cons d(3) Un_assoc)
    with d(1,2) have "\<exists>e \<in> set (c # cs). p = slot_of e (unat (used e))
             \<and> slots cs' = slots (c # cs) \<union> {slot_of e (unat (used e) + k) | k. k < unat n}"
      by auto
    with IH Cons.prems(2) mono show ?thesis by (simp add: cs')
  qed
qed

lemma alloc_ok_slot:
  assumes "alloc_ok a s" and "c \<in> set (chunks_m a)"
  shows "\<exists>b. data c = Ptr b 0 \<and> b < next_block s \<and> (\<forall>k. slot_of c k = Ptr b k)"
proof (cases "data c")
  case nullptr
  with assms show ?thesis by (auto simp: alloc_ok_def)
next
  case (Ptr b j)
  with assms have "j = 0 \<and> b < next_block s" by (auto simp: alloc_ok_def)
  with Ptr show ?thesis by (simp add: slot_of_def)
qed

lemma alloc_ok_mono:
  assumes ok: "alloc_ok a s" and nb: "next_block s \<le> next_block s'"
  shows "alloc_ok a s'"
proof -
  have "case d of nullptr \<Rightarrow> False | Ptr b j \<Rightarrow> j = 0 \<and> b < next_block s'"
    if d: "d \<in> set (map data (chunks_m a))" for d
  proof -
    from d obtain c where c: "c \<in> set (chunks_m a)" "d = data c" by auto
    from alloc_ok_slot [OF ok c(1)] obtain b where "data c = Ptr b 0" "b < next_block s"
      by blast
    with nb c(2) show ?thesis by simp
  qed
  with ok show ?thesis by (simp add: alloc_ok_def)
qed

lemma chunks_live_mono:
  assumes ok: "alloc_ok a s" and lv: "chunks_live a s"
    and bl: "\<forall>b. b < next_block s \<longrightarrow> blocks s' b = blocks s b"
  shows "chunks_live a s'"
  unfolding chunks_live_def
proof
  fix c assume c: "c \<in> set (chunks_m a)"
  from alloc_ok_slot [OF ok c] obtain b where b: "data c = Ptr b 0" "b < next_block s" by blast
  from lv c have "in_live_block s (data c)" by (simp add: chunks_live_def)
  with b bl show "in_live_block s' (data c)" by (simp add: in_live_block_def)
qed

lemma chunks_live_data:
  "chunks_live a s = (\<forall>d \<in> set (map data (chunks_m a)). in_live_block s d)"
  by (auto simp: chunks_live_def)

lemma chunks_live_blocks: "blocks s' = blocks s \<Longrightarrow> chunks_live a s' = chunks_live a s"
  by (simp add: chunks_live_def in_live_block_def cong: pointer.case_cong)

lemma slots_live:
  assumes "alloc_ok a s" and "chunks_live a s" and "p \<in> slots (chunks_m a)"
  shows "in_live_block s p"
proof -
  from assms(3) obtain c j where c: "c \<in> set (chunks_m a)" "p = slot_of c j"
    by (auto simp: slots_def)
  from assms(2) c(1) have "in_live_block s (data c)" by (simp add: chunks_live_def)
  with alloc_ok_slot [OF assms(1) c(1)] c(2) show ?thesis by (auto simp: in_live_block_def)
qed

lemma slots_block:
  assumes "alloc_ok a s" and "Ptr b k \<in> slots (chunks_m a)"
  shows "b < next_block s"
proof -
  from assms(2) obtain c j where c: "c \<in> set (chunks_m a)" "Ptr b k = slot_of c j"
    by (auto simp: slots_def)
  from alloc_ok_slot [OF assms(1) c(1)] c(2) show ?thesis by auto
qed

lemma slots_nonnull: "alloc_ok a s \<Longrightarrow> nullptr \<notin> slots (chunks_m a)"
proof
  assume ok: "alloc_ok a s" and "nullptr \<in> slots (chunks_m a)"
  then obtain c j where c: "c \<in> set (chunks_m a)" "nullptr = slot_of c j"
    by (auto simp: slots_def)
  from alloc_ok_slot [OF ok c(1)] c(2) show False by auto
qed

lemma beyond_used_fresh:
  assumes ok: "alloc_ok a s" and c: "c \<in> set (chunks_m a)" and k: "unat (used c) \<le> k"
  shows "slot_of c k \<notin> slots (chunks_m a)"
proof
  assume "slot_of c k \<in> slots (chunks_m a)"
  then obtain c' j where c': "c' \<in> set (chunks_m a)" "slot_of c k = slot_of c' j" "j < unat (used c')"
    by (auto simp: slots_def)
  from alloc_ok_slot [OF ok c] obtain b where b: "data c = Ptr b 0" "\<forall>k. slot_of c k = Ptr b k"
    by blast
  from alloc_ok_slot [OF ok c'(1)] obtain b' where b': "data c' = Ptr b' 0" "\<forall>k. slot_of c' k = Ptr b' k"
    by blast
  from c'(2) b b' have eq: "b = b'" "k = j" by simp_all
  from ok have "inj_on data (set (chunks_m a))" by (simp add: alloc_ok_def distinct_map)
  moreover from b(1) b'(1) eq have "data c = data c'" by simp
  ultimately have "c = c'" using c c'(1) by (rule inj_onD)
  with c'(3) k eq show False by simp
qed

lemma allocate_Returns:
  assumes al: "allocate ChunkSize sizeof_T n (a, s) = Returns p (a', s')"
    and ok: "alloc_ok a s" and n: "n \<noteq> 0"
  shows "alloc_ok a' s' \<and> mem s' = mem s \<and> trace s' = trace s \<and> never_reclaimed a a'
     \<and> (\<exists>b i. p = Ptr b i \<and> (\<forall>k. Ptr b (i + k) \<notin> slots (chunks_m a))
          \<and> slots (chunks_m a') = slots (chunks_m a) \<union> {Ptr b (i + k) | k. k < unat n})"
proof (cases "find_fit (chunks_m a) n")
  case (Some r)
  obtain q cs' where r: "r = (q, cs')" by (cases r)
  from al n Some r have eqs: "p = q" "a' = a\<lparr>chunks_m := cs'\<rparr>" "s' = s"
    by (simp_all add: allocate_def)
  from ok have u: "\<forall>c \<in> set (chunks_m a). used c \<le> size_c c" by (simp add: alloc_ok_def)
  from find_fit_Some [OF Some [unfolded r] u]
  obtain c where ff: "map data cs' = map data (chunks_m a)" "map size_c cs' = map size_c (chunks_m a)" "\<forall>c \<in> set cs'. used c \<le> size_c c"
     "length cs' = length (chunks_m a)" "\<forall>i < length (chunks_m a). used (chunks_m a ! i) \<le> used (cs' ! i)"
     and c: "c \<in> set (chunks_m a)" "q = slot_of c (unat (used c))"
       "slots cs' = slots (chunks_m a) \<union> {slot_of c (unat (used c) + k) | k. k < unat n}"
    by blast
  from alloc_ok_slot [OF ok c(1)] obtain b where b: "\<And>k. slot_of c k = Ptr b k" by blast
  have ok': "alloc_ok a' s'" using ok ff(1,3) by (simp add: alloc_ok_def eqs)
  have nr: "never_reclaimed a a'"
    unfolding never_reclaimed_def
  proof (intro conjI ballI)
    show "length (chunks_m a) \<le> length (chunks_m a')" by (simp add: eqs ff)
  next
    fix i assume "i \<in> {..<length (chunks_m a)}"
    then have i: "i < length (chunks_m a)" by simp
    from ff(1) have "map data cs' ! i = map data (chunks_m a) ! i" by simp
    with i ff(4) show "data (chunks_m a' ! i) = data (chunks_m a ! i)" by (simp add: eqs)
    from ff(2) have "map size_c cs' ! i = map size_c (chunks_m a) ! i" by simp
    with i ff(4) show "size_c (chunks_m a' ! i) = size_c (chunks_m a ! i)" by (simp add: eqs)
    from ff(5) i show "used (chunks_m a ! i) \<le> used (chunks_m a' ! i)" by (simp add: eqs)
  qed
  have fresh: "\<forall>k. Ptr b (unat (used c) + k) \<notin> slots (chunks_m a)"
  proof
    fix k
    from beyond_used_fresh [OF ok c(1), of "unat (used c) + k"] b
    show "Ptr b (unat (used c) + k) \<notin> slots (chunks_m a)" by simp
  qed
  from c(2,3) b fresh have "p = Ptr b (unat (used c)) \<and> (\<forall>k. Ptr b (unat (used c) + k) \<notin> slots (chunks_m a))
          \<and> slots (chunks_m a') = slots (chunks_m a) \<union> {Ptr b (unat (used c) + k) | k. k < unat n}"
    by (simp add: eqs)
  then have "\<exists>b i. p = Ptr b i \<and> (\<forall>k. Ptr b (i + k) \<notin> slots (chunks_m a))
          \<and> slots (chunks_m a') = slots (chunks_m a) \<union> {Ptr b (i + k) | k. k < unat n}"
    by blast
  with ok' nr show ?thesis by (simp add: eqs)
next
  case None
  let ?nb = "next_block s"
  let ?c = "\<lparr>data = Ptr ?nb 0, size_c = max ChunkSize n, used = n\<rparr>"
  from al n None have eqs: "p = Ptr ?nb 0" "chunks_m a' = chunks_m a @ [?c]"
      "mem s' = mem s" "trace s' = trace s" "next_block s' = Suc ?nb"
      "blocks s' = (blocks s)(?nb := Some (unat (max ChunkSize n * sizeof_T)))"
    by (auto simp: allocate_def operator_new_def vector_push_back_def Let_def split: if_splits)
  have notin: "Ptr ?nb 0 \<notin> set (map data (chunks_m a))"
  proof
    assume "Ptr ?nb 0 \<in> set (map data (chunks_m a))"
    then obtain c where c: "c \<in> set (chunks_m a)" "data c = Ptr ?nb 0" by auto
    from alloc_ok_slot [OF ok c(1)] c(2) show False by auto
  qed
  have "alloc_ok a s'"
    using ok by (rule alloc_ok_mono) (simp add: eqs)
  then have ok': "alloc_ok a' s'"
    using notin by (simp add: alloc_ok_def eqs)
  have nr: "never_reclaimed a a'"
    by (simp add: never_reclaimed_def eqs nth_append)
  have fresh: "\<forall>k. Ptr ?nb (0 + k) \<notin> slots (chunks_m a)"
    using slots_block [OF ok] by auto
  have "slots [?c] = {Ptr ?nb (0 + k) | k. k < unat n}"
    by (auto simp: slots_def slot_of_def)
  then have "slots (chunks_m a') = slots (chunks_m a) \<union> {Ptr ?nb (0 + k) | k. k < unat n}"
    by (simp add: eqs slots_append)
  with fresh eqs(1) have "\<exists>b i. p = Ptr b i \<and> (\<forall>k. Ptr b (i + k) \<notin> slots (chunks_m a))
          \<and> slots (chunks_m a') = slots (chunks_m a) \<union> {Ptr b (i + k) | k. k < unat n}"
    by blast
  with ok' nr show ?thesis by (simp add: eqs)
qed

lemma allocate_Throws:
  assumes "allocate ChunkSize sizeof_T n (a, s) = Throws e (a', s')"
  shows "a' = a \<and> e = bad_alloc \<and> mem s' = mem s \<and> trace s' = trace s
     \<and> next_block s \<le> next_block s' \<and> (\<forall>b. b < next_block s \<longrightarrow> blocks s' b = blocks s b)"
  using assms
  by (auto simp: allocate_def operator_new_def vector_push_back_def Let_def
           split: if_splits option.splits)

text \<open>The chunks of an allocator stay live: \<^verbatim>\<open>allocate\<close> releases nothing.\<close>

lemma allocate_blocks:
  assumes "allocate ChunkSize sizeof_T n (a, s) = Returns p (a', s')"
  shows "\<forall>b. b < next_block s \<longrightarrow> blocks s' b = blocks s b"
  using assms
  by (auto simp: allocate_def operator_new_def vector_push_back_def Let_def
           split: if_splits option.splits)

lemma allocate_live:
  assumes al: "allocate ChunkSize sizeof_T n (a, s) = Returns p (a', s')"
    and ok: "alloc_ok a s" and lv: "chunks_live a s"
  shows "chunks_live a' s'"
proof -
  from ok lv allocate_blocks [OF al] have old: "chunks_live a s'" by (rule chunks_live_mono)
  show ?thesis
  proof (cases "n = 0")
    case True
    with al old show ?thesis by (simp add: allocate_def)
  next
    case n: False
    show ?thesis
    proof (cases "find_fit (chunks_m a) n")
      case (Some r)
      obtain q cs' where r: "r = (q, cs')" by (cases r)
      from al n Some r have eqs: "a' = a\<lparr>chunks_m := cs'\<rparr>" by (simp add: allocate_def)
      from ok have "\<forall>c \<in> set (chunks_m a). used c \<le> size_c c" by (simp add: alloc_ok_def)
      from find_fit_Some [OF Some [unfolded r] this]
      have "map data cs' = map data (chunks_m a)" by simp
      with old show ?thesis by (simp add: chunks_live_data eqs)
    next
      case None
      let ?nb = "next_block s"
      from al n None obtain c where eqs: "chunks_m a' = chunks_m a @ [c]" "data c = Ptr ?nb 0"
          "blocks s' ?nb \<noteq> None"
        by (auto simp: allocate_def operator_new_def vector_push_back_def Let_def split: if_splits)
      with old show ?thesis by (simp add: chunks_live_def in_live_block_def)
    qed
  qed
qed

lemma allocate_not_Undefined: "allocate ChunkSize sizeof_T n (a, s) \<noteq> Undefined"
  by (auto simp: allocate_def operator_new_def vector_push_back_def Let_def
           split: if_splits option.splits)

lemma allocate_not_Terminates: "allocate ChunkSize sizeof_T n (a, s) \<noteq> Terminates"
  by (auto simp: allocate_def operator_new_def vector_push_back_def Let_def
           split: if_splits option.splits)


section \<open>Runs of allocator calls\<close>

lemma never_reclaimed_refl: "never_reclaimed a a"
  by (simp add: never_reclaimed_def)

lemma never_reclaimed_trans:
  assumes "never_reclaimed a b" and "never_reclaimed b c"
  shows "never_reclaimed a c"
  unfolding never_reclaimed_def
proof (intro conjI ballI)
  from assms show "length (chunks_m a) \<le> length (chunks_m c)"
    by (simp add: never_reclaimed_def)
next
  fix i assume "i \<in> {..<length (chunks_m a)}"
  then have i: "i \<in> {..<length (chunks_m a)}" "i \<in> {..<length (chunks_m b)}"
    using assms(1) by (simp_all add: never_reclaimed_def)
  from assms(1) i(1) have 1: "data (chunks_m b ! i) = data (chunks_m a ! i)"
    "size_c (chunks_m b ! i) = size_c (chunks_m a ! i)" "used (chunks_m a ! i) \<le> used (chunks_m b ! i)"
    unfolding never_reclaimed_def by blast+
  from assms(2) i(2) have 2: "data (chunks_m c ! i) = data (chunks_m b ! i)"
    "size_c (chunks_m c ! i) = size_c (chunks_m b ! i)" "used (chunks_m b ! i) \<le> used (chunks_m c ! i)"
    unfolding never_reclaimed_def by blast+
  from 1 2 show "data (chunks_m c ! i) = data (chunks_m a ! i)" by simp
  from 1 2 show "size_c (chunks_m c ! i) = size_c (chunks_m a ! i)" by simp
  from 1 2 show "used (chunks_m a ! i) \<le> used (chunks_m c ! i)" by simp
qed

lemma alloc_ok_next_block: "next_block s' = next_block s \<Longrightarrow> alloc_ok a s' = alloc_ok a s"
  by (simp add: alloc_ok_def cong: pointer.case_cong)

lemma alloc_step_inv:
  assumes step: "alloc_step ChunkSize sizeof_T x (a, s) = Some (a', s')"
    and ok: "alloc_ok a s"
    and live: "\<forall>p. mem s p \<noteq> None \<longrightarrow> p \<in> slots (chunks_m a)"
  shows "alloc_ok a' s' \<and> never_reclaimed a a' \<and> (\<forall>p. mem s' p \<noteq> None \<longrightarrow> p \<in> slots (chunks_m a'))"
proof (cases x)
  case (Allocate n)
  show ?thesis
  proof (cases "allocate ChunkSize sizeof_T n (a, s)")
    case (Returns p st0)
    with step Allocate have r: "allocate ChunkSize sizeof_T n (a, s) = Returns p (a', s')" by simp
    show ?thesis
    proof (cases "n = 0")
      case True
      with r have "a' = a" "s' = s" by (simp_all add: allocate_def)
      with ok live show ?thesis by (simp add: never_reclaimed_refl)
    next
      case False
      from allocate_Returns [OF r ok False] live show ?thesis by auto
    qed
  next
    case (Throws e st0)
    with step Allocate have "allocate ChunkSize sizeof_T n (a, s) = Throws e (a', s')" by simp
    from allocate_Throws [OF this] have a: "a' = a" and m: "mem s' = mem s"
      and nb: "next_block s \<le> next_block s'" by simp_all
    from ok nb have "alloc_ok a s'" by (rule alloc_ok_mono)
    with live show ?thesis by (simp add: a m never_reclaimed_refl)
  next
    case Undefined
    with step Allocate show ?thesis by simp
  next
    case Terminates
    with step Allocate show ?thesis by simp
  qed
next
  case (Deallocate p n)
  with step have "a' = a" "s' = s" by (simp_all add: deallocate_def)
  with ok live show ?thesis by (simp add: never_reclaimed_refl)
next
  case (Construct p made)
  with step have h: "handed_out a p" and a: "a' = a"
    and s: "s' = s \<or> (\<exists>v. s' = s\<lparr>mem := (mem s)(p := Some v)\<rparr>)"
    by (auto simp: construct_def split: if_splits sum.splits pointer.splits option.splits)
  from s have "next_block s' = next_block s" by auto
  with ok have ok': "alloc_ok a' s'" using alloc_ok_next_block [of s' s a] by (simp add: a)
  from live h s have "\<forall>q. mem s' q \<noteq> None \<longrightarrow> q \<in> slots (chunks_m a')"
    by (auto simp: a handed_out_slots split: if_splits)
  with ok' show ?thesis by (simp add: a never_reclaimed_refl)
next
  case (Destroy p)
  with step have a: "a' = a" and s: "s' = s\<lparr>mem := (mem s)(p := None)\<rparr>"
    by (auto simp: destroy_def split: if_splits)
  from ok have ok': "alloc_ok a' s'" using alloc_ok_next_block [of s' s a] by (simp add: a s)
  from live have "\<forall>q. mem s' q \<noteq> None \<longrightarrow> q \<in> slots (chunks_m a')"
    by (auto simp: a s split: if_splits)
  with ok' show ?thesis by (simp add: a never_reclaimed_refl)
qed

lemma alloc_run_inv:
  assumes "alloc_run ChunkSize sizeof_T xs (a, s) = Some (a', s')"
    and "alloc_ok a s"
    and "\<forall>p. mem s p \<noteq> None \<longrightarrow> p \<in> slots (chunks_m a)"
  shows "alloc_ok a' s' \<and> never_reclaimed a a' \<and> (\<forall>p. mem s' p \<noteq> None \<longrightarrow> p \<in> slots (chunks_m a'))"
  using assms
proof (induction xs arbitrary: a s)
  case Nil
  then show ?case by (simp add: never_reclaimed_refl)
next
  case (Cons x xs)
  from Cons.prems(1) obtain a1 s1 where 1: "alloc_step ChunkSize sizeof_T x (a, s) = Some (a1, s1)"
    and 2: "alloc_run ChunkSize sizeof_T xs (a1, s1) = Some (a', s')"
    by (auto split: option.splits)
  from alloc_step_inv [OF 1 Cons.prems(2,3)]
  have i1: "alloc_ok a1 s1" "never_reclaimed a a1" "\<forall>p. mem s1 p \<noteq> None \<longrightarrow> p \<in> slots (chunks_m a1)"
    by simp_all
  from Cons.IH [OF 2 i1(1,3)] i1(2) show ?case
    by (auto intro: never_reclaimed_trans)
qed

text \<open>The chunks do not depend on the objects in the store.\<close>

lemma alloc_step_ok:
  assumes step: "alloc_step ChunkSize sizeof_T x (a, s) = Some (a', s')" and ok: "alloc_ok a s"
  shows "alloc_ok a' s' \<and> never_reclaimed a a'"
proof (cases x)
  case (Allocate n)
  show ?thesis
  proof (cases "allocate ChunkSize sizeof_T n (a, s)")
    case (Returns p st0)
    with step Allocate have r: "allocate ChunkSize sizeof_T n (a, s) = Returns p (a', s')" by simp
    show ?thesis
    proof (cases "n = 0")
      case True
      with r have "a' = a" "s' = s" by (simp_all add: allocate_def)
      with ok show ?thesis by (simp add: never_reclaimed_refl)
    next
      case False
      from allocate_Returns [OF r ok False] show ?thesis by simp
    qed
  next
    case (Throws e st0)
    with step Allocate have "allocate ChunkSize sizeof_T n (a, s) = Throws e (a', s')" by simp
    from allocate_Throws [OF this] have a: "a' = a"
      and nb: "next_block s \<le> next_block s'" by simp_all
    from ok nb have "alloc_ok a s'" by (rule alloc_ok_mono)
    then show ?thesis by (simp add: a never_reclaimed_refl)
  next
    case Undefined
    with step Allocate show ?thesis by simp
  next
    case Terminates
    with step Allocate show ?thesis by simp
  qed
next
  case (Deallocate p n)
  with step have "a' = a" "s' = s" by (simp_all add: deallocate_def)
  with ok show ?thesis by (simp add: never_reclaimed_refl)
next
  case (Construct p made)
  with step have "a' = a" "next_block s' = next_block s"
    by (auto simp: construct_def split: if_splits sum.splits pointer.splits option.splits)
  with ok show ?thesis using alloc_ok_next_block [of s' s a] by (simp add: never_reclaimed_refl)
next
  case (Destroy p)
  with step have "a' = a" "next_block s' = next_block s"
    by (auto simp: destroy_def split: if_splits)
  with ok show ?thesis using alloc_ok_next_block [of s' s a] by (simp add: never_reclaimed_refl)
qed

lemma alloc_run_ok:
  assumes "alloc_run ChunkSize sizeof_T xs (a, s) = Some (a', s')" and "alloc_ok a s"
  shows "alloc_ok a' s' \<and> never_reclaimed a a'"
  using assms
proof (induction xs arbitrary: a s)
  case Nil
  then show ?case by (simp add: never_reclaimed_refl)
next
  case (Cons x xs)
  from Cons.prems(1) obtain a1 s1 where 1: "alloc_step ChunkSize sizeof_T x (a, s) = Some (a1, s1)"
    and 2: "alloc_run ChunkSize sizeof_T xs (a1, s1) = Some (a', s')"
    by (auto split: option.splits)
  from alloc_step_ok [OF 1 Cons.prems(2)] have i1: "alloc_ok a1 s1" "never_reclaimed a a1" by simp_all
  from Cons.IH [OF 2 i1(1)] i1(2) show ?case
    by (auto intro: never_reclaimed_trans)
qed

lemma alloc_ok_default: "alloc_ok my_allocator_default s"
  by (simp add: alloc_ok_def my_allocator_default_def)

lemma chunk_reserved_from_inv:
  assumes ok: "alloc_ok a s" and live: "\<forall>p. mem s p \<noteq> None \<longrightarrow> p \<in> slots (chunks_m a)"
  shows "chunk_reserved (a, s)"
proof -
  have "used c \<le> size_c c
        \<and> (case data c of nullptr \<Rightarrow> False | Ptr b j \<Rightarrow> b < next_block s)
        \<and> (\<forall>i \<in> {unat (used c)..<unat (size_c c)}. mem s (slot_of c i) = None)"
    if c: "c \<in> set (chunks_m a)" for c
  proof (intro conjI ballI)
    from ok c show "used c \<le> size_c c" by (simp add: alloc_ok_def)
    from alloc_ok_slot [OF ok c] show "case data c of nullptr \<Rightarrow> False | Ptr b j \<Rightarrow> b < next_block s"
      by auto
  next
    fix i assume "i \<in> {unat (used c)..<unat (size_c c)}"
    then have "unat (used c) \<le> i" by simp
    from beyond_used_fresh [OF ok c this] live show "mem s (slot_of c i) = None" by blast
  qed
  with live show ?thesis by (simp add: chunk_reserved_def handed_out_slots)
qed

section \<open>Claims about the allocator\<close>

text \<open>
  C1, as stated: if no existing chunk fits, a new chunk is created, appended at the end of
  the chunk sequence, and its base address is returned, the raw allocation of its memory
  being the one step that may fail. This does not hold. On a freshly constructed
  allocator of chunk capacity 10 for elements of 4 bytes, with 40 bytes left in the
  free store, \<^verbatim>\<open>allocate(1)\<close> finds no chunk, \<^verbatim>\<open>operator new\<close> supplies the 40 bytes of
  the new chunk, and \<^verbatim>\<open>chunks_.push_back\<close> then has no memory for the buffer of the
  vector: \<^verbatim>\<open>allocate\<close> throws \<^verbatim>\<open>std::bad_alloc\<close>, no chunk has been appended, no address
  is returned, and the block of 40 bytes stays taken from the free store.
\<close>

theorem allocate_vector_growth_counterexample:
  "chunks_m my_allocator_default = []
   \<and> operator_new (max 10 1 * 4) (empty_store 0 40 :: nat store) =
       Returns (Ptr 0 0)
         \<lparr>mem = (\<lambda>p. None), blocks = (\<lambda>b. None)(0 := Some 40), next_block = 1, avail = 0,
          trace = []\<rparr>
   \<and> allocate 10 4 1 (my_allocator_default, empty_store 0 40 :: nat store) =
       Throws bad_alloc
         (my_allocator_default,
          \<lparr>mem = (\<lambda>p. None), blocks = (\<lambda>b. None)(0 := Some 40), next_block = 1, avail = 0,
           trace = []\<rparr>)"
  by (simp add: allocate_def operator_new_def vector_push_back_def my_allocator_default_def
        empty_store_def sizeof_Chunk_def)

text \<open>
  C1, as amended. \<^verbatim>\<open>allocate(n)\<close> with \<open>n > 0\<close> scans the chunks in creation order. The
  first chunk \<open>i\<close> with \<open>capacity - used \<ge> n\<close> (no earlier chunk fitting) is selected: the
  call returns that chunk's base plus its used count and adds \<open>n\<close> to its used count, all
  other chunks and the store staying as they are; when \<open>used \<le> capacity\<close> the addition
  does not wrap. If no chunk fits, \<^verbatim>\<open>operator new\<close> is asked for the memory of a chunk of
  capacity \<open>max(ChunkSize, n)\<close>. When it throws, the failure reaches the caller and the
  allocator is unchanged. When it returns \<open>p\<close> and the chunk sequence can take one more
  record (the vector has spare capacity, or the free store supplies its larger
  buffer), the chunk with base \<open>p\<close>, capacity \<open>max(ChunkSize, n)\<close> and used count \<open>n\<close> is
  appended and \<open>p\<close> is returned; no object is created or destroyed. When it returns and the
  chunk sequence cannot grow, \<^verbatim>\<open>allocate\<close> throws \<^verbatim>\<open>std::bad_alloc\<close> with the allocator
  unchanged, in the store that \<^verbatim>\<open>operator new\<close> has left.
\<close>

theorem allocate_first_fit:
  fixes a :: my_allocator and s :: "'a store"
  assumes "n \<noteq> 0"
  shows "(\<forall>i. i < length (chunks_m a)
            \<and> n \<le> size_c (chunks_m a ! i) - used (chunks_m a ! i)
            \<and> (\<forall>j < i. \<not> n \<le> size_c (chunks_m a ! j) - used (chunks_m a ! j)) \<longrightarrow>
          allocate ChunkSize sizeof_T n (a, s) =
            Returns (ptr_add (data (chunks_m a ! i)) (used (chunks_m a ! i)))
              (a\<lparr>chunks_m := (chunks_m a)[i := (chunks_m a ! i)\<lparr>used := used (chunks_m a ! i) + n\<rparr>]\<rparr>, s)
          \<and> (used (chunks_m a ! i) \<le> size_c (chunks_m a ! i) \<longrightarrow>
               unat (used (chunks_m a ! i) + n) = unat (used (chunks_m a ! i)) + unat n))
       \<and> ((\<forall>c \<in> set (chunks_m a). \<not> n \<le> size_c c - used c) \<longrightarrow>
            (\<forall>e s1. operator_new (max ChunkSize n * sizeof_T) s = Throws e s1 \<longrightarrow>
               allocate ChunkSize sizeof_T n (a, s) = Throws e (a, s1))
          \<and> (\<forall>p s1. operator_new (max ChunkSize n * sizeof_T) s = Returns p s1 \<longrightarrow>
               (if length (chunks_m a) < chunks_cap a
                   \<or> (length (chunks_m a) + max (length (chunks_m a)) 1) * sizeof_Chunk \<le> avail s1
                then \<exists>a2 s2. allocate ChunkSize sizeof_T n (a, s) = Returns p (a2, s2)
                       \<and> chunks_m a2 =
                           chunks_m a @ [\<lparr>data = p, size_c = max ChunkSize n, used = n\<rparr>]
                       \<and> mem s2 = mem s \<and> trace s2 = trace s
                       \<and> blocks s2 = blocks s1 \<and> next_block s2 = next_block s1
                else allocate ChunkSize sizeof_T n (a, s) = Throws bad_alloc (a, s1))))"
proof (intro conjI allI impI)
  fix i
  assume h: "i < length (chunks_m a)
            \<and> n \<le> size_c (chunks_m a ! i) - used (chunks_m a ! i)
            \<and> (\<forall>j < i. \<not> n \<le> size_c (chunks_m a ! j) - used (chunks_m a ! j))"
  then have "find_fit (chunks_m a) n =
           Some (ptr_add (data (chunks_m a ! i)) (used (chunks_m a ! i)),
                 (chunks_m a)[i := (chunks_m a ! i)\<lparr>used := used (chunks_m a ! i) + n\<rparr>])"
    by (intro find_fit_first) simp_all
  with assms show "allocate ChunkSize sizeof_T n (a, s) =
            Returns (ptr_add (data (chunks_m a ! i)) (used (chunks_m a ! i)))
              (a\<lparr>chunks_m := (chunks_m a)[i := (chunks_m a ! i)\<lparr>used := used (chunks_m a ! i) + n\<rparr>]\<rparr>, s)"
    by (simp add: allocate_def)
  assume u: "used (chunks_m a ! i) \<le> size_c (chunks_m a ! i)"
  from h have "n \<le> size_c (chunks_m a ! i) - used (chunks_m a ! i)" by simp
  with u show "unat (used (chunks_m a ! i) + n) = unat (used (chunks_m a ! i)) + unat n"
    by (rule used_add_no_wrap(1))
next
  fix e s1
  assume "\<forall>c \<in> set (chunks_m a). \<not> n \<le> size_c c - used c"
  then have none: "find_fit (chunks_m a) n = None" by (simp add: find_fit_None)
  assume "operator_new (max ChunkSize n * sizeof_T) s = Throws e s1"
  with assms none show "allocate ChunkSize sizeof_T n (a, s) = Throws e (a, s1)"
    by (simp add: allocate_def Let_def)
next
  fix p s1
  assume "\<forall>c \<in> set (chunks_m a). \<not> n \<le> size_c c - used c"
  then have none: "find_fit (chunks_m a) n = None" by (simp add: find_fit_None)
  assume new: "operator_new (max ChunkSize n * sizeof_T) s = Returns p s1"
  then have p: "p \<noteq> nullptr" and s1: "mem s1 = mem s" "trace s1 = trace s"
    by (auto simp: operator_new_def split: if_splits)
  let ?grow = "length (chunks_m a) < chunks_cap a
                 \<or> (length (chunks_m a) + max (length (chunks_m a)) 1) * sizeof_Chunk \<le> avail s1"
  from assms none new p
  have al: "allocate ChunkSize sizeof_T n (a, s) =
          (case vector_push_back a \<lparr>data = p, size_c = max ChunkSize n, used = 0\<rparr> s1 of
             Throws e st \<Rightarrow> Throws e st
           | Undefined \<Rightarrow> Undefined
           | Terminates \<Rightarrow> Terminates
           | Returns u (a', s'') \<Rightarrow>
               Returns (data (last (chunks_m a')))
                 (a'\<lparr>chunks_m := butlast (chunks_m a') @ [(last (chunks_m a'))\<lparr>used := n\<rparr>]\<rparr>, s''))"
    by (simp add: allocate_def Let_def cong: result.case_cong)
  show "if ?grow
        then \<exists>a2 s2. allocate ChunkSize sizeof_T n (a, s) = Returns p (a2, s2)
               \<and> chunks_m a2 = chunks_m a @ [\<lparr>data = p, size_c = max ChunkSize n, used = n\<rparr>]
               \<and> mem s2 = mem s \<and> trace s2 = trace s
               \<and> blocks s2 = blocks s1 \<and> next_block s2 = next_block s1
        else allocate ChunkSize sizeof_T n (a, s) = Throws bad_alloc (a, s1)"
  proof (cases ?grow)
    case True
    then show ?thesis
      by (auto simp add: al vector_push_back_def Let_def s1)
  next
    case False
    then show ?thesis
      by (simp add: al vector_push_back_def Let_def)
  qed
qed

theorem allocate_first_fit_witness:
  "allocate 10 4 3
     (\<lparr>chunks_m = [\<lparr>data = Ptr 0 0, size_c = 10, used = 8\<rparr>, \<lparr>data = Ptr 1 0, size_c = 10, used = 2\<rparr>,
                   \<lparr>data = Ptr 2 0, size_c = 10, used = 0\<rparr>], chunks_cap = 4\<rparr>,
      empty_store 3 100 :: nat store)
   = Returns (Ptr 1 2)
       (\<lparr>chunks_m = [\<lparr>data = Ptr 0 0, size_c = 10, used = 8\<rparr>, \<lparr>data = Ptr 1 0, size_c = 10, used = 5\<rparr>,
                     \<lparr>data = Ptr 2 0, size_c = 10, used = 0\<rparr>], chunks_cap = 4\<rparr>,
        empty_store 3 100)
   \<and> (\<exists>a2 s2. allocate 10 4 3
          (\<lparr>chunks_m = [\<lparr>data = Ptr 0 0, size_c = 10, used = 8\<rparr>], chunks_cap = 1\<rparr>,
           empty_store 1 100 :: nat store) = Returns (Ptr 1 0) (a2, s2)
        \<and> chunks_m a2 = [\<lparr>data = Ptr 0 0, size_c = 10, used = 8\<rparr>, \<lparr>data = Ptr 1 0, size_c = 10, used = 3\<rparr>])
   \<and> allocate 10 4 3
       (\<lparr>chunks_m = [\<lparr>data = Ptr 0 0, size_c = 10, used = 8\<rparr>], chunks_cap = 1\<rparr>,
        empty_store 1 39 :: nat store)
     = Throws bad_alloc
         (\<lparr>chunks_m = [\<lparr>data = Ptr 0 0, size_c = 10, used = 8\<rparr>], chunks_cap = 1\<rparr>, empty_store 1 39)
   \<and> allocate 10 4 3
       (\<lparr>chunks_m = [\<lparr>data = Ptr 0 0, size_c = 10, used = 8\<rparr>], chunks_cap = 1\<rparr>,
        empty_store 1 87 :: nat store)
     = Throws bad_alloc
         (\<lparr>chunks_m = [\<lparr>data = Ptr 0 0, size_c = 10, used = 8\<rparr>], chunks_cap = 1\<rparr>,
          \<lparr>mem = (\<lambda>p. None), blocks = (\<lambda>b. None)(1 := Some 40), next_block = 2, avail = 47,
           trace = []\<rparr>)"
  using allocate_first_fit [of 3 "\<lparr>chunks_m = [\<lparr>data = Ptr 0 0, size_c = 10, used = 8\<rparr>, \<lparr>data = Ptr 1 0, size_c = 10, used = 2\<rparr>,
       \<lparr>data = Ptr 2 0, size_c = 10, used = 0\<rparr>], chunks_cap = 4\<rparr>" 10 4 "empty_store 3 100 :: nat store", THEN conjunct1, THEN spec, of 1]
    allocate_first_fit [of 3 "\<lparr>chunks_m = [\<lparr>data = Ptr 0 0, size_c = 10, used = 8\<rparr>], chunks_cap = 1\<rparr>" 10 4 "empty_store 1 100 :: nat store", THEN conjunct2]
    allocate_first_fit [of 3 "\<lparr>chunks_m = [\<lparr>data = Ptr 0 0, size_c = 10, used = 8\<rparr>], chunks_cap = 1\<rparr>" 10 4 "empty_store 1 39 :: nat store", THEN conjunct2]
    allocate_first_fit [of 3 "\<lparr>chunks_m = [\<lparr>data = Ptr 0 0, size_c = 10, used = 8\<rparr>], chunks_cap = 1\<rparr>" 10 4 "empty_store 1 87 :: nat store", THEN conjunct2]
  by (simp add: operator_new_def empty_store_def less_Suc_eq sizeof_Chunk_def) blast

lemma replicate_11: "replicate 11 x = [x, x, x, x, x, x, x, x, x, x, x]"
  by (simp add: eval_nat_numeral)

lemma allocate_first_chunk:
  "allocate 10 sizeof_T 1 (my_allocator_default, s) = Returns p (a1, s1) \<Longrightarrow>
   a1 = \<lparr>chunks_m = [\<lparr>data = p, size_c = 10, used = 1\<rparr>], chunks_cap = 1\<rparr>"
  by (auto simp add: allocate_def operator_new_def vector_push_back_def Let_def
        my_allocator_default_def split: if_splits)

lemma allocate_in_chunk:
  "u \<in> {1, 2, 3, 4, 5, 6, 7, 8, 9} \<Longrightarrow>
   allocate 10 sizeof_T 1 (\<lparr>chunks_m = [\<lparr>data = d, size_c = 10, used = u\<rparr>], chunks_cap = k\<rparr>, s) =
     Returns (ptr_add d u) (\<lparr>chunks_m = [\<lparr>data = d, size_c = 10, used = u + 1\<rparr>], chunks_cap = k\<rparr>, s)"
  by (auto simp add: allocate_def)

lemma allocate_second_chunk:
  "allocate 10 sizeof_T 1 (\<lparr>chunks_m = [\<lparr>data = d, size_c = 10, used = 10\<rparr>], chunks_cap = k\<rparr>, s) =
     Returns p (a, s') \<Longrightarrow>
   chunks_m a = [\<lparr>data = d, size_c = 10, used = 10\<rparr>, \<lparr>data = p, size_c = 10, used = 1\<rparr>]"
  by (auto simp add: allocate_def operator_new_def vector_push_back_def Let_def split: if_splits)

lemma ten_in_chunk:
  "allocate_all 10 sizeof_T [1, 1, 1, 1, 1, 1, 1, 1, 1, 1]
     (\<lparr>chunks_m = [\<lparr>data = d, size_c = 10, used = 1\<rparr>], chunks_cap = k\<rparr>, s) = Returns ps (a, s')
   \<Longrightarrow> \<exists>p. chunks_m a = [\<lparr>data = d, size_c = 10, used = 10\<rparr>, \<lparr>data = p, size_c = 10, used = 1\<rparr>]"
  by (auto simp add: allocate_in_chunk split: result.splits dest: allocate_second_chunk)

text \<open>
  C4. With chunk capacity 10, eleven \<^verbatim>\<open>allocate(1)\<close> calls on a freshly constructed
  allocator, all returning, leave exactly two chunks: the first with used count 10, the
  second with used count 1.
\<close>

theorem eleven_allocations:
  assumes "allocate_all 10 sizeof_T (replicate 11 1) (my_allocator_default, s) = Returns ps (a, s')"
  shows "length (chunks_m a) = 2 \<and> used (chunks_m a ! 0) = 10 \<and> used (chunks_m a ! 1) = 1
     \<and> size_c (chunks_m a ! 0) = 10 \<and> size_c (chunks_m a ! 1) = 10"
proof -
  from assms obtain p a1 s1 qs
    where 1: "allocate 10 sizeof_T 1 (my_allocator_default, s) = Returns p (a1, s1)"
      and 2: "allocate_all 10 sizeof_T [1, 1, 1, 1, 1, 1, 1, 1, 1, 1] (a1, s1) = Returns qs (a, s')"
    by (auto simp add: replicate_11 split: result.splits)
  from allocate_first_chunk [OF 1]
  have "a1 = \<lparr>chunks_m = [\<lparr>data = p, size_c = 10, used = 1\<rparr>], chunks_cap = 1\<rparr>" .
  with 2 have "\<exists>q. chunks_m a = [\<lparr>data = p, size_c = 10, used = 10\<rparr>, \<lparr>data = q, size_c = 10, used = 1\<rparr>]"
    by (intro ten_in_chunk) simp
  then show ?thesis by auto
qed

theorem eleven_allocations_witness:
  "case allocate_all 10 4 (replicate 11 1) (my_allocator_default, empty_store 0 1000 :: nat store) of
     Returns ps (a, s') \<Rightarrow>
       ps = [Ptr 0 0, Ptr 0 1, Ptr 0 2, Ptr 0 3, Ptr 0 4, Ptr 0 5, Ptr 0 6, Ptr 0 7, Ptr 0 8,
             Ptr 0 9, Ptr 1 0]
       \<and> chunks_m a = [\<lparr>data = Ptr 0 0, size_c = 10, used = 10\<rparr>, \<lparr>data = Ptr 1 0, size_c = 10, used = 1\<rparr>]
       \<and> chunks_cap a = 2 \<and> next_block s' = 2 \<and> avail s' = 872
       \<and> length (chunks_m a) = 2 \<and> used (chunks_m a ! 0) = 10 \<and> used (chunks_m a ! 1) = 1
   | _ \<Rightarrow> False"
proof -
  have r: "case allocate_all 10 4 (replicate 11 1) (my_allocator_default, empty_store 0 1000 :: nat store) of
     Returns ps (a, s') \<Rightarrow>
       ps = [Ptr 0 0, Ptr 0 1, Ptr 0 2, Ptr 0 3, Ptr 0 4, Ptr 0 5, Ptr 0 6, Ptr 0 7, Ptr 0 8,
             Ptr 0 9, Ptr 1 0]
       \<and> chunks_m a = [\<lparr>data = Ptr 0 0, size_c = 10, used = 10\<rparr>, \<lparr>data = Ptr 1 0, size_c = 10, used = 1\<rparr>]
       \<and> chunks_cap a = 2 \<and> next_block s' = 2 \<and> avail s' = 872
   | _ \<Rightarrow> False"
    by code_simp
  then obtain ps a s'
    where e: "allocate_all 10 4 (replicate 11 1) (my_allocator_default, empty_store 0 1000 :: nat store)
                = Returns ps (a, s')"
    by (auto split: result.splits)
  from eleven_allocations [OF e] r e show ?thesis by simp
qed

text \<open>
  C5. \<^verbatim>\<open>deallocate(p, n)\<close> is a no-op for every pointer and count: it returns, and the
  allocator (its chunk sequence, each base, capacity and used count) and the store are
  what they were. No space is reclaimed: between any state a client reaches from a
  fresh allocator and any later state, every chunk is still in place with its base and
  capacity, and no used count has gone down.
\<close>

theorem deallocate_noop:
  "deallocate a p n = a
   \<and> alloc_step ChunkSize sizeof_T (Deallocate p n) (a, s) = Some (a, s)
   \<and> (\<forall>xs ys a' s' a'' s''.
         alloc_run ChunkSize sizeof_T xs (my_allocator_default, s0) = Some (a', s')
         \<and> alloc_run ChunkSize sizeof_T ys (a', s') = Some (a'', s'')
         \<longrightarrow> never_reclaimed a' a'')"
proof (intro conjI allI impI)
  show "deallocate a p n = a" by (simp add: deallocate_def)
  show "alloc_step ChunkSize sizeof_T (Deallocate p n) (a, s) = Some (a, s)"
    by (simp add: deallocate_def)
next
  fix xs ys a' s' a'' s''
  assume h: "alloc_run ChunkSize sizeof_T xs (my_allocator_default, s0) = Some (a', s')
         \<and> alloc_run ChunkSize sizeof_T ys (a', s') = Some (a'', s'')"
  then have "alloc_ok a' s'" using alloc_run_ok [OF _ alloc_ok_default] by blast
  with h show "never_reclaimed a' a''" using alloc_run_ok by blast
qed

theorem deallocate_noop_witness:
  "alloc_run 10 4 [Allocate 3] (my_allocator_default, empty_store 0 100 :: nat store)
     = Some (\<lparr>chunks_m = [\<lparr>data = Ptr 0 0, size_c = 10, used = 3\<rparr>], chunks_cap = 1\<rparr>,
             \<lparr>mem = (\<lambda>p. None), blocks = (\<lambda>b. None)(0 := Some 40), next_block = 1, avail = 36,
              trace = []\<rparr>)
   \<and> alloc_run 10 4 [Deallocate (Ptr 0 0) 3, Allocate 2]
        (\<lparr>chunks_m = [\<lparr>data = Ptr 0 0, size_c = 10, used = 3\<rparr>], chunks_cap = 1\<rparr>,
         \<lparr>mem = (\<lambda>p. None), blocks = (\<lambda>b. None)(0 := Some 40), next_block = 1, avail = 36,
          trace = []\<rparr> :: nat store)
     = Some (\<lparr>chunks_m = [\<lparr>data = Ptr 0 0, size_c = 10, used = 5\<rparr>], chunks_cap = 1\<rparr>,
             \<lparr>mem = (\<lambda>p. None), blocks = (\<lambda>b. None)(0 := Some 40), next_block = 1, avail = 36,
              trace = []\<rparr>)
   \<and> never_reclaimed \<lparr>chunks_m = [\<lparr>data = Ptr 0 0, size_c = 10, used = 3\<rparr>], chunks_cap = 1\<rparr>
        \<lparr>chunks_m = [\<lparr>data = Ptr 0 0, size_c = 10, used = 5\<rparr>], chunks_cap = 1\<rparr>"
proof -
  have 1: "alloc_run 10 4 [Allocate 3] (my_allocator_default, empty_store 0 100 :: nat store)
     = Some (\<lparr>chunks_m = [\<lparr>data = Ptr 0 0, size_c = 10, used = 3\<rparr>], chunks_cap = 1\<rparr>,
             \<lparr>mem = (\<lambda>p. None), blocks = (\<lambda>b. None)(0 := Some 40), next_block = 1, avail = 36,
              trace = []\<rparr>)"
    by (simp add: allocate_def operator_new_def vector_push_back_def sizeof_Chunk_def
          my_allocator_default_def empty_store_def)
  have 2: "alloc_run 10 4 [Deallocate (Ptr 0 0) 3, Allocate 2]
        (\<lparr>chunks_m = [\<lparr>data = Ptr 0 0, size_c = 10, used = 3\<rparr>], chunks_cap = 1\<rparr>,
         \<lparr>mem = (\<lambda>p. None), blocks = (\<lambda>b. None)(0 := Some 40), next_block = 1, avail = 36,
          trace = []\<rparr> :: nat store)
     = Some (\<lparr>chunks_m = [\<lparr>data = Ptr 0 0, size_c = 10, used = 5\<rparr>], chunks_cap = 1\<rparr>,
             \<lparr>mem = (\<lambda>p. None), blocks = (\<lambda>b. None)(0 := Some 40), next_block = 1, avail = 36,
              trace = []\<rparr>)"
    by (simp add: allocate_def deallocate_def)
  from deallocate_noop [of my_allocator_default nullptr 0 10 4 "empty_store 0 100 :: nat store" "empty_store 0 100 :: nat store",
      THEN conjunct2, THEN conjunct2, rule_format, OF conjI, OF 1 2] 1 2
  show ?thesis by simp
qed

text \<open>
  C6. The chunk invariant as stated (\<open>used \<le> capacity\<close>, live elements throughout
  \<open>[base, base+used)\<close>, none in \<open>[base+used, base+capacity)\<close>) does not hold in
  every reachable state: \<^verbatim>\<open>allocate\<close> hands out raw storage and counts it as used at
  once, and \<^verbatim>\<open>destroy\<close> followed by the no-op \<^verbatim>\<open>deallocate\<close> leaves a used slot without
  an element. After one element has been allocated, constructed, destroyed and
  deallocated, the chunk has used count 1 and no element at its base.
\<close>

theorem chunk_live_counterexample:
  "alloc_run 10 4 [Allocate 1, Construct (Ptr 0 0) (Inr 5), Destroy (Ptr 0 0), Deallocate (Ptr 0 0) 1]
       (my_allocator_default, empty_store 0 100 :: nat store)
     = Some (\<lparr>chunks_m = [\<lparr>data = Ptr 0 0, size_c = 10, used = 1\<rparr>], chunks_cap = 1\<rparr>,
             \<lparr>mem = (\<lambda>p. None), blocks = (\<lambda>b. None)(0 := Some 40), next_block = 1, avail = 36,
              trace = []\<rparr>)
   \<and> \<not> chunk_live (\<lparr>chunks_m = [\<lparr>data = Ptr 0 0, size_c = 10, used = 1\<rparr>], chunks_cap = 1\<rparr>,
             \<lparr>mem = (\<lambda>p. None), blocks = (\<lambda>b. None)(0 := Some 40), next_block = 1, avail = 36,
              trace = []\<rparr> :: nat store)"
  by (simp add: allocate_def operator_new_def vector_push_back_def sizeof_Chunk_def
        my_allocator_default_def empty_store_def
        handed_out_def slot_of_def construct_def destroy_def deallocate_def chunk_live_def)

text \<open>
  C6, as amended. In every state that a client reaches from a fresh allocator by
  \<^verbatim>\<open>allocate\<close>, \<^verbatim>\<open>deallocate\<close>, \<^verbatim>\<open>construct\<close> and \<^verbatim>\<open>destroy\<close>: for every chunk,
  \<open>used \<le> capacity\<close>, the base of the chunk is a block obtained from the free store,
  and no element lives in \<open>[base+used, base+capacity)\<close>; every live element lies in a
  slot of some \<open>[base, base+used)\<close>, the storage that \<^verbatim>\<open>allocate\<close> has handed out, whose
  slots may be raw, live or already destroyed.
\<close>

theorem chunk_reserved_reachable:
  assumes "alloc_run ChunkSize sizeof_T xs (my_allocator_default, empty_store nb av) = Some (a, s)"
  shows "chunk_reserved (a, s)"
proof -
  have "\<forall>p. mem (empty_store nb av :: 'a store) p \<noteq> None \<longrightarrow> p \<in> slots (chunks_m my_allocator_default)"
    by (simp add: empty_store_def)
  from alloc_run_inv [OF assms alloc_ok_default this] show ?thesis
    by (intro chunk_reserved_from_inv) simp_all
qed

theorem chunk_reserved_reachable_witness:
  "alloc_run 10 4 [Allocate 1, Construct (Ptr 0 0) (Inr 5), Destroy (Ptr 0 0), Deallocate (Ptr 0 0) 1]
       (my_allocator_default, empty_store 0 100 :: nat store)
     = Some (\<lparr>chunks_m = [\<lparr>data = Ptr 0 0, size_c = 10, used = 1\<rparr>], chunks_cap = 1\<rparr>,
             \<lparr>mem = (\<lambda>p. None), blocks = (\<lambda>b. None)(0 := Some 40), next_block = 1, avail = 36,
              trace = []\<rparr>)
   \<and> chunk_reserved (\<lparr>chunks_m = [\<lparr>data = Ptr 0 0, size_c = 10, used = 1\<rparr>], chunks_cap = 1\<rparr>,
             \<lparr>mem = (\<lambda>p. None), blocks = (\<lambda>b. None)(0 := Some 40), next_block = 1, avail = 36,
              trace = []\<rparr> :: nat store)"
proof -
  have r: "alloc_run 10 4 [Allocate 1, Construct (Ptr 0 0) (Inr 5), Destroy (Ptr 0 0), Deallocate (Ptr 0 0) 1]
       (my_allocator_default, empty_store 0 100 :: nat store)
     = Some (\<lparr>chunks_m = [\<lparr>data = Ptr 0 0, size_c = 10, used = 1\<rparr>], chunks_cap = 1\<rparr>,
             \<lparr>mem = (\<lambda>p. None), blocks = (\<lambda>b. None)(0 := Some 40), next_block = 1, avail = 36,
              trace = []\<rparr>)"
    by (simp add: allocate_def operator_new_def vector_push_back_def sizeof_Chunk_def
        my_allocator_default_def empty_store_def
        handed_out_def slot_of_def construct_def destroy_def deallocate_def)
  from chunk_reserved_reachable [OF r] r show ?thesis by simp
qed

text \<open>
  C8. \<^verbatim>\<open>a == b\<close> holds iff \<open>a\<close> and \<open>b\<close> are the same object, and \<^verbatim>\<open>a != b\<close> is its
  negation. Every allocator equals itself, and two distinct default-constructed
  allocators, although they hold the same (empty) chunk sequence, compare unequal.
\<close>

theorem allocator_identity:
  "(operator_eq a b \<longleftrightarrow> a = b)
   \<and> (operator_ne a b \<longleftrightarrow> \<not> operator_eq a b)
   \<and> operator_eq a a
   \<and> (a \<noteq> b \<longrightarrow>
        declare_allocator b (declare_allocator a objects) a = Some my_allocator_default
        \<and> declare_allocator b (declare_allocator a objects) b = Some my_allocator_default
        \<and> \<not> operator_eq a b \<and> operator_ne a b)"
  by (simp add: operator_eq_def operator_ne_def declare_allocator_def)

theorem allocator_identity_witness:
  "(0::nat) \<noteq> 1
   \<and> declare_allocator 1 (declare_allocator 0 (\<lambda>x. None)) 0 = declare_allocator 1 (declare_allocator 0 (\<lambda>x. None)) 1
   \<and> \<not> operator_eq 0 1 \<and> operator_ne 0 1 \<and> operator_eq 0 0"
  using allocator_identity [of 0 1 "\<lambda>x. None"] by simp

section \<open>Chains of nodes\<close>

lemma chain_Cons:
  "chain m p (x # xs) \<longleftrightarrow>
     p = fst x \<and> p \<noteq> nullptr \<and> (\<exists>node. m p = Some node \<and> data_n node = snd x \<and> chain m (next node) xs)"
  by (auto split: option.splits)

declare chain.simps(2) [simp del]

lemma chain_frame:
  assumes "chain m p xs" and "\<forall>x \<in> set xs. m' (fst x) = m (fst x)"
  shows "chain m' p xs"
  using assms
proof (induction xs arbitrary: p)
  case Nil
  then show ?case by simp
next
  case (Cons x xs)
  from Cons.prems(1) obtain node where n: "p = fst x" "p \<noteq> nullptr" "m p = Some node"
      "data_n node = snd x" "chain m (next node) xs"
    by (auto simp: chain_Cons)
  from Cons.prems(2) n have "m' p = Some node" by simp
  moreover from Cons.prems(2) have "chain m' (next node) xs" by (intro Cons.IH [OF n(5)]) simp
  ultimately show ?case using n by (simp add: chain_Cons)
qed

lemma chain_nonnull: "chain m p xs \<Longrightarrow> \<forall>x \<in> set xs. fst x \<noteq> nullptr"
proof (induction xs arbitrary: p)
  case Nil
  then show ?case by simp
next
  case (Cons x xs)
  then show ?case by (auto simp: chain_Cons)
qed

lemma chain_unique: "chain m p xs \<Longrightarrow> chain m p ys \<Longrightarrow> xs = ys"
proof (induction xs arbitrary: p ys)
  case Nil
  then show ?case by (cases ys) (auto simp: chain_Cons)
next
  case (Cons x xs)
  from Cons.prems(1) obtain node where n: "m p = Some node" "p = fst x" "data_n node = snd x"
      "chain m (next node) xs" "p \<noteq> nullptr"
    by (auto simp: chain_Cons)
  from Cons.prems(2) n(5) obtain y ys' where ys: "ys = y # ys'" by (cases ys) auto
  from Cons.prems(2) ys n(1) have "p = fst y" "data_n node = snd y" "chain m (next node) ys'"
    by (auto simp: chain_Cons)
  with n Cons.IH [of "next node" ys'] ys show ?case by (simp add: prod_eq_iff)
qed

lemma chain_suffix: "chain m p (xs @ y # ys) \<Longrightarrow> chain m (fst y) (y # ys)"
proof (induction xs arbitrary: p)
  case Nil
  then show ?case by (auto simp: chain_Cons)
next
  case (Cons x xs)
  then show ?case by (auto simp: chain_Cons [of m p x])
qed

lemma chain_distinct: "chain m p xs \<Longrightarrow> distinct (map fst xs)"
proof (induction xs arbitrary: p)
  case Nil
  then show ?case by simp
next
  case (Cons x xs)
  from Cons.prems obtain node where n: "m p = Some node" "p = fst x" "chain m (next node) xs"
    by (auto simp: chain_Cons)
  have "fst x \<notin> fst ` set xs"
  proof
    assume "fst x \<in> fst ` set xs"
    then obtain y where "y \<in> set xs" "fst y = fst x" by auto
    then obtain as bs where xs: "xs = as @ y # bs" by (auto simp: in_set_conv_decomp)
    from n(3) have "chain m (fst y) (y # bs)" unfolding xs by (rule chain_suffix)
    with \<open>fst y = fst x\<close> n(2) have "chain m p (y # bs)" by simp
    from chain_unique [OF Cons.prems this] xs have "length (x # as @ y # bs) = length (y # bs)"
      by simp
    then show False by simp
  qed
  with Cons.IH [OF n(3)] show ?case by simp
qed

lemma chain_last:
  assumes "chain m p xs" and "xs \<noteq> []"
  shows "\<exists>t. m (fst (last xs)) = Some t \<and> next t = nullptr \<and> data_n t = snd (last xs)"
  using assms
proof (induction xs arbitrary: p)
  case Nil
  then show ?case by simp
next
  case (Cons x xs)
  from Cons.prems obtain node where n: "m p = Some node" "p = fst x" "data_n node = snd x"
      "chain m (next node) xs"
    by (auto simp: chain_Cons)
  show ?case
  proof (cases "xs = []")
    case True
    with n show ?thesis by simp
  next
    case False
    with Cons.IH [OF n(4)] show ?thesis by simp
  qed
qed

lemma chain_head: "chain m p xs \<Longrightarrow> (p = nullptr) = (xs = [])"
  by (cases xs) (auto simp: chain_Cons)

lemma chain_snoc:
  assumes "chain m p xs" and "xs \<noteq> []" and "q \<notin> fst ` set xs" and "q \<noteq> nullptr"
    and "m q = Some \<lparr>data_n = v, next = nullptr\<rparr>" and "m (fst (last xs)) = Some t"
  shows "chain (m(fst (last xs) := Some (t\<lparr>next := q\<rparr>))) p (xs @ [(q, v)])"
  using assms(1,2,3,6) chain_distinct [OF assms(1)]
proof (induction xs arbitrary: p)
  case Nil
  then show ?case by simp
next
  case (Cons x xs)
  from Cons.prems(1) obtain node where n: "m p = Some node" "p = fst x" "data_n node = snd x"
      "chain m (next node) xs" "p \<noteq> nullptr"
    by (auto simp: chain_Cons)
  show ?case
  proof (cases "xs = []")
    case True
    with n Cons.prems assms(4,5) show ?thesis by (auto simp: chain_Cons)
  next
    case False
    let ?m = "m(fst (last xs) := Some (t\<lparr>next := q\<rparr>))"
    from False Cons.prems have "fst x \<noteq> fst (last xs)" by auto
    with n have 1: "?m p = Some node" by simp
    from False Cons.prems n(4) have 2: "chain ?m (next node) (xs @ [(q, v)])"
      by (intro Cons.IH) auto
    have "chain ?m p (x # (xs @ [(q, v)]))"
      unfolding chain_Cons using 1 2 n by blast
    moreover from False have "last (x # xs) = last xs" by simp
    ultimately show ?thesis by (simp only: append_Cons)
  qed
qed

lemma chain_follow:
  assumes "chain m p xs" and "xs \<noteq> []"
  shows "follow m p (length xs - 1) = Some (fst (last xs))"
  using assms
proof (induction xs arbitrary: p)
  case Nil
  then show ?case by simp
next
  case (Cons x xs)
  from Cons.prems obtain node where n: "m p = Some node" "p = fst x" "chain m (next node) xs"
    by (auto simp: chain_Cons)
  show ?case
  proof (cases xs)
    case Nil
    with n show ?thesis by simp
  next
    case (Cons y ys)
    with Cons.IH [OF n(3)] n show ?thesis by simp
  qed
qed

lemma chain_iterate:
  "chain (mem s) p xs \<Longrightarrow> iterate s p nullptr visited = Some (Returns (visited @ map snd xs) ())"
proof (induction xs arbitrary: p visited)
  case Nil
  then show ?case by (simp add: iterate.simps)
next
  case (Cons x xs)
  from Cons.prems obtain node where n: "mem s p = Some node" "p = fst x" "p \<noteq> nullptr"
      "data_n node = snd x" "chain (mem s) (next node) xs"
    by (auto simp: chain_Cons)
  from Cons.IH [OF n(5), of "visited @ [snd x]"] n show ?case
    by (subst iterate.simps) simp
qed

lemma chain_clear_loop:
  assumes "chain (mem s) p xs"
  shows "clear_loop p a s =
    Some (Returns nullptr
      (a, s\<lparr>mem := (\<lambda>q. if q \<in> fst ` set xs then None else mem s q),
            trace := trace s @ concat (map (\<lambda>x. [EvDestroy (fst x), EvDeallocate (fst x) 1]) xs)\<rparr>))"
  using assms chain_distinct [OF assms]
proof (induction xs arbitrary: p s)
  case Nil
  then show ?case by (simp add: clear_loop.simps)
next
  case (Cons x xs)
  from Cons.prems obtain node where n: "mem s p = Some node" "p = fst x" "p \<noteq> nullptr"
      "chain (mem s) (next node) xs"
    by (auto simp: chain_Cons)
  let ?s1 = "s\<lparr>mem := (mem s)(p := None), trace := trace s @ [EvDestroy p, EvDeallocate p 1]\<rparr>"
  have step: "traits_deallocate p 1 (a, traits_destroy p s) = (a, ?s1)"
    by (simp add: traits_deallocate_def traits_destroy_def deallocate_def destroy_def)
  from Cons.prems(2) n(2) have notin: "p \<notin> fst ` set xs" by simp
  with n(4) have c1: "chain (mem ?s1) (next node) xs"
    by (intro chain_frame [OF n(4)]) auto
  from Cons.prems(2) have d: "distinct (map fst xs)" by simp
  have "clear_loop p a s = clear_loop (next node) a ?s1"
    using n step by (subst clear_loop.simps) simp
  also have "\<dots> = Some (Returns nullptr
      (a, ?s1\<lparr>mem := (\<lambda>q. if q \<in> fst ` set xs then None else mem ?s1 q),
            trace := trace ?s1 @ concat (map (\<lambda>x. [EvDestroy (fst x), EvDeallocate (fst x) 1]) xs)\<rparr>))"
    by (rule Cons.IH [OF c1 d])
  also have "?s1\<lparr>mem := (\<lambda>q. if q \<in> fst ` set xs then None else mem ?s1 q),
            trace := trace ?s1 @ concat (map (\<lambda>x. [EvDestroy (fst x), EvDeallocate (fst x) 1]) xs)\<rparr>
     = s\<lparr>mem := (\<lambda>q. if q \<in> fst ` set (x # xs) then None else mem s q),
            trace := trace s @ concat (map (\<lambda>x. [EvDestroy (fst x), EvDeallocate (fst x) 1]) (x # xs))\<rparr>"
    using n(2) by (auto simp: fun_eq_iff)
  finally show ?case .
qed


section \<open>Appending a node\<close>

lemma push_back_emplace_back:
  "push_back ChunkSize sizeof_Node copy_T v = emplace_back ChunkSize sizeof_Node copy_T v"
  by (simp add: push_back_def emplace_back_def)

lemma traits_allocate_Returns:
  "traits_allocate ChunkSize sizeof_T n (a, s) = Returns q (a1, s1) \<longleftrightarrow>
     (\<exists>s0. allocate ChunkSize sizeof_T n (a, s) = Returns q (a1, s0)
           \<and> s1 = s0\<lparr>trace := trace s0 @ [EvAllocate n q]\<rparr>)"
  by (auto simp: traits_allocate_def split: result.splits)

lemma traits_allocate_Throws:
  "traits_allocate ChunkSize sizeof_T n (a, s) = Throws e (a1, s1) \<longleftrightarrow>
     allocate ChunkSize sizeof_T n (a, s) = Throws e (a1, s1)"
  by (auto simp: traits_allocate_def split: result.splits)

lemma traits_allocate_not_Undefined: "traits_allocate ChunkSize sizeof_T n (a, s) \<noteq> Undefined"
  using allocate_not_Undefined [of ChunkSize sizeof_T n a s]
  by (auto simp: traits_allocate_def split: result.splits)

lemma traits_allocate_not_Terminates: "traits_allocate ChunkSize sizeof_T n (a, s) \<noteq> Terminates"
  using allocate_not_Terminates [of ChunkSize sizeof_T n a s]
  by (auto simp: traits_allocate_def split: result.splits)

lemma construct_Inr:
  "construct p (Inr x) s =
     (if in_live_block s p then Returns () (s\<lparr>mem := (mem s)(p := Some x)\<rparr>) else Undefined)"
  by (simp add: construct_def in_live_block_def split: pointer.splits option.splits)

lemma in_live_block_trace: "in_live_block (s\<lparr>trace := t\<rparr>) p = in_live_block s p"
  by (simp add: in_live_block_def cong: pointer.case_cong)

text \<open>What \<^verbatim>\<open>emplace_back\<close> does, branch by branch.\<close>

lemma emplace_back_alloc_Throws:
  assumes "traits_allocate ChunkSize sizeof_Node 1 (allocator_m c, s) = Throws e (a1, s1)"
  shows "emplace_back ChunkSize sizeof_Node make_T args (c, s) = Throws e (c\<lparr>allocator_m := a1\<rparr>, s1)"
  using assms by (simp add: emplace_back_def)

lemma emplace_back_ctor_Throws:
  assumes "traits_allocate ChunkSize sizeof_Node 1 (allocator_m c, s) = Returns q (a1, s1)"
    and "make_T args = Inl e"
  shows "emplace_back ChunkSize sizeof_Node make_T args (c, s) =
           Throws e (c\<lparr>allocator_m := deallocate a1 q 1\<rparr>,
                     s1\<lparr>trace := trace s1 @ [EvConstruct q, EvDeallocate q 1]\<rparr>)"
  using assms
  by (simp add: emplace_back_def traits_construct_def construct_def Node_ctor_def
        traits_deallocate_def)

lemma emplace_back_released:
  assumes "traits_allocate ChunkSize sizeof_Node 1 (allocator_m c, s) = Returns q (a1, s1)"
    and "make_T args = Inr d" and "\<not> in_live_block s1 q"
  shows "emplace_back ChunkSize sizeof_Node make_T args (c, s) = Undefined"
  using assms
  by (simp add: emplace_back_def traits_construct_def construct_Inr Node_ctor_def)

lemma emplace_back_first:
  assumes "traits_allocate ChunkSize sizeof_Node 1 (allocator_m c, s) = Returns q (a1, s1)"
    and "make_T args = Inr d" and "in_live_block s1 q" and "head_m c = nullptr"
  shows "emplace_back ChunkSize sizeof_Node make_T args (c, s) =
           Returns () (c\<lparr>head_m := q, tail_m := q, size_m := size_m c + 1, allocator_m := a1\<rparr>,
                       s1\<lparr>mem := (mem s1)(q := Some \<lparr>data_n = d, next = nullptr\<rparr>),
                          trace := trace s1 @ [EvConstruct q]\<rparr>)"
  using assms
  by (simp add: emplace_back_def traits_construct_def construct_Inr Node_ctor_def)

lemma emplace_back_link:
  assumes "traits_allocate ChunkSize sizeof_Node 1 (allocator_m c, s) = Returns q (a1, s1)"
    and "make_T args = Inr d" and "in_live_block s1 q" and "head_m c \<noteq> nullptr"
    and "((mem s1)(q := Some \<lparr>data_n = d, next = nullptr\<rparr>)) (tail_m c) = Some t"
  shows "emplace_back ChunkSize sizeof_Node make_T args (c, s) =
           Returns () (c\<lparr>tail_m := q, size_m := size_m c + 1, allocator_m := a1\<rparr>,
                       s1\<lparr>mem := (mem s1)(q := Some \<lparr>data_n = d, next = nullptr\<rparr>,
                                         tail_m c := Some (t\<lparr>next := q\<rparr>)),
                          trace := trace s1 @ [EvConstruct q]\<rparr>)"
  using assms
  by (simp add: emplace_back_def traits_construct_def construct_Inr Node_ctor_def)

lemma emplace_back_dangling:
  assumes "traits_allocate ChunkSize sizeof_Node 1 (allocator_m c, s) = Returns q (a1, s1)"
    and "make_T args = Inr d" and "in_live_block s1 q" and "head_m c \<noteq> nullptr"
    and "((mem s1)(q := Some \<lparr>data_n = d, next = nullptr\<rparr>)) (tail_m c) = None"
  shows "emplace_back ChunkSize sizeof_Node make_T args (c, s) = Undefined"
  using assms
  by (simp add: emplace_back_def traits_construct_def construct_Inr Node_ctor_def)

text \<open>The shape of a call that returns, and of one that throws.\<close>

lemma emplace_back_Returns:
  assumes "emplace_back ChunkSize sizeof_Node make_T args (c, s) = Returns u (c', s')"
  shows "\<exists>q a1 s1 d. traits_allocate ChunkSize sizeof_Node 1 (allocator_m c, s) = Returns q (a1, s1)
      \<and> make_T args = Inr d \<and> in_live_block s1 q
      \<and> (head_m c = nullptr \<and>
           c' = c\<lparr>head_m := q, tail_m := q, size_m := size_m c + 1, allocator_m := a1\<rparr> \<and>
           s' = s1\<lparr>mem := (mem s1)(q := Some \<lparr>data_n = d, next = nullptr\<rparr>),
                   trace := trace s1 @ [EvConstruct q]\<rparr>
         \<or> head_m c \<noteq> nullptr \<and>
           (\<exists>t. ((mem s1)(q := Some \<lparr>data_n = d, next = nullptr\<rparr>)) (tail_m c) = Some t \<and>
             c' = c\<lparr>tail_m := q, size_m := size_m c + 1, allocator_m := a1\<rparr> \<and>
             s' = s1\<lparr>mem := (mem s1)(q := Some \<lparr>data_n = d, next = nullptr\<rparr>,
                                  tail_m c := Some (t\<lparr>next := q\<rparr>)),
                     trace := trace s1 @ [EvConstruct q]\<rparr>))"
proof (cases "traits_allocate ChunkSize sizeof_Node 1 (allocator_m c, s)")
  case (Returns q st0)
  obtain a1 s1 where st0: "st0 = (a1, s1)" by (cases st0)
  note al = Returns [unfolded st0]
  show ?thesis
  proof (cases "make_T args")
    case (Inl e)
    from emplace_back_ctor_Throws [where make_T = make_T and args = args, OF al Inl] assms show ?thesis by simp
  next
    case (Inr d)
    show ?thesis
    proof (cases "in_live_block s1 q")
      case False
      from emplace_back_released [where make_T = make_T and args = args, OF al Inr False] assms
      show ?thesis by simp
    next
      case live: True
      show ?thesis
      proof (cases "head_m c = nullptr")
        case True
        from emplace_back_first [where make_T = make_T and args = args, OF al Inr live True] assms al Inr live True
        show ?thesis by auto
      next
        case False
        show ?thesis
        proof (cases "((mem s1)(q := Some \<lparr>data_n = d, next = nullptr\<rparr>)) (tail_m c)")
          case None
          from emplace_back_dangling [where make_T = make_T and args = args, OF al Inr live False None] assms
          show ?thesis by simp
        next
          case (Some t)
          from emplace_back_link [where make_T = make_T and args = args, OF al Inr live False Some] assms al Inr live False Some
          show ?thesis by auto
        qed
      qed
    qed
  qed
next
  case (Throws e st0)
  obtain a1 s1 where st0: "st0 = (a1, s1)" by (cases st0)
  from emplace_back_alloc_Throws [where make_T = make_T and args = args, OF Throws [unfolded st0]] assms show ?thesis by simp
next
  case Undefined
  with traits_allocate_not_Undefined show ?thesis by blast
next
  case Terminates
  with traits_allocate_not_Terminates show ?thesis by blast
qed

lemma emplace_back_Throws:
  assumes "emplace_back ChunkSize sizeof_Node make_T args (c, s) = Throws e (c', s')"
  shows "head_m c' = head_m c \<and> tail_m c' = tail_m c \<and> size_m c' = size_m c \<and> mem s' = mem s
     \<and> next_block s \<le> next_block s'
     \<and> (\<exists>a1 s1. allocator_m c' = a1 \<and>
           (allocate ChunkSize sizeof_Node 1 (allocator_m c, s) = Throws e (a1, s1) \<and> s' = s1
            \<or> (\<exists>q. allocate ChunkSize sizeof_Node 1 (allocator_m c, s) = Returns q (a1, s1) \<and>
                   make_T args = Inl e \<and>
                   s' = s1\<lparr>trace := trace s1 @ [EvAllocate 1 q, EvConstruct q, EvDeallocate q 1]\<rparr>)))"
proof (cases "traits_allocate ChunkSize sizeof_Node 1 (allocator_m c, s)")
  case (Returns q st0)
  obtain a1 s1 where st0: "st0 = (a1, s1)" by (cases st0)
  note al = Returns [unfolded st0]
  then obtain s0 where s0: "allocate ChunkSize sizeof_Node 1 (allocator_m c, s) = Returns q (a1, s0)"
      "s1 = s0\<lparr>trace := trace s0 @ [EvAllocate 1 q]\<rparr>"
    by (auto simp: traits_allocate_Returns)
  have ms: "mem s0 = mem s \<and> next_block s \<le> next_block s0"
    using s0(1)
    by (auto simp: allocate_def operator_new_def vector_push_back_def Let_def
             split: option.splits if_splits)
  show ?thesis
  proof (cases "make_T args")
    case (Inl e')
    from emplace_back_ctor_Throws [where make_T = make_T and args = args, OF al Inl] assms s0 ms Inl show ?thesis
      by (auto simp: deallocate_def)
  next
    case (Inr d)
    show ?thesis
    proof (cases "in_live_block s1 q")
      case False
      from emplace_back_released [where make_T = make_T and args = args, OF al Inr False] assms
      show ?thesis by simp
    next
      case live: True
      show ?thesis
      proof (cases "head_m c = nullptr")
        case True
        from emplace_back_first [where make_T = make_T and args = args, OF al Inr live True] assms show ?thesis by simp
      next
        case False
        show ?thesis
        proof (cases "((mem s1)(q := Some \<lparr>data_n = d, next = nullptr\<rparr>)) (tail_m c)")
          case None
          from emplace_back_dangling [where make_T = make_T and args = args, OF al Inr live False None] assms show ?thesis by simp
        next
          case (Some t)
          from emplace_back_link [where make_T = make_T and args = args, OF al Inr live False Some] assms show ?thesis by simp
        qed
      qed
    qed
  qed
next
  case (Throws e' st0)
  obtain a1 s1 where st0: "st0 = (a1, s1)" by (cases st0)
  note al = Throws [unfolded st0]
  then have "allocate ChunkSize sizeof_Node 1 (allocator_m c, s) = Throws e' (a1, s1)"
    by (simp add: traits_allocate_Throws)
  with allocate_Throws [OF this] emplace_back_alloc_Throws [where make_T = make_T and args = args, OF al] assms show ?thesis
    by auto
next
  case Undefined
  with traits_allocate_not_Undefined show ?thesis by blast
next
  case Terminates
  with traits_allocate_not_Terminates show ?thesis by blast
qed

lemma push_back_all_Throws:
  assumes "push_back_all ChunkSize sizeof_Node copy_T vs st = Throws e st'"
  shows "e = bad_alloc \<or> (\<exists>v \<in> set vs. copy_T v = Inl e)"
  using assms
proof (induction vs arbitrary: st)
  case Nil
  then show ?case by simp
next
  case (Cons v vs)
  obtain c s where st: "st = (c, s)" by (cases st)
  show ?case
  proof (cases "push_back ChunkSize sizeof_Node copy_T v (c, s)")
    case (Returns u st1)
    with Cons.prems st have "push_back_all ChunkSize sizeof_Node copy_T vs st1 = Throws e st'" by simp
    from Cons.IH [OF this] show ?thesis by auto
  next
    case (Throws e' st1)
    obtain c1 s1 where st1: "st1 = (c1, s1)" by (cases st1)
    from Throws Cons.prems st have e: "e' = e" by simp
    from Throws st1 e have "emplace_back ChunkSize sizeof_Node copy_T v (c, s) = Throws e (c1, s1)"
      by (simp add: push_back_emplace_back)
    from emplace_back_Throws [OF this]
    have "(\<exists>a1 s2. allocate ChunkSize sizeof_Node 1 (allocator_m c, s) = Throws e (a1, s2))
          \<or> copy_T v = Inl e" by auto
    then show ?thesis using allocate_Throws by fastforce
  next
    case Undefined
    with Cons.prems st show ?thesis by simp
  next
    case Terminates
    with Cons.prems st show ?thesis by simp
  qed
qed


section \<open>A container on its own allocator\<close>

lemma allocate_one:
  assumes al: "allocate ChunkSize sizeof_T 1 (a, s) = Returns q (a1, s0)" and ok: "alloc_ok a s"
  shows "alloc_ok a1 s0 \<and> mem s0 = mem s \<and> q \<noteq> nullptr \<and> q \<notin> slots (chunks_m a)
     \<and> slots (chunks_m a1) = insert q (slots (chunks_m a))"
proof -
  have "(1 :: size_type) \<noteq> 0" by simp
  from allocate_Returns [OF al ok this]
  obtain b i where ok1: "alloc_ok a1 s0" "mem s0 = mem s" and q: "q = Ptr b i"
    and fresh: "\<forall>k. Ptr b (i + k) \<notin> slots (chunks_m a)"
    and sl: "slots (chunks_m a1) = slots (chunks_m a) \<union> {Ptr b (i + k) | k. k < unat (1 :: size_type)}"
    by blast
  have "{Ptr b (i + k) | k. k < unat (1 :: size_type)} = {q}" by (auto simp: q)
  with sl have "slots (chunks_m a1) = insert q (slots (chunks_m a))" by simp
  moreover from fresh [rule_format, of 0] have "q \<notin> slots (chunks_m a)" by (simp add: q)
  ultimately show ?thesis using ok1 q by simp
qed

lemma allocate_one_live:
  assumes al: "allocate ChunkSize sizeof_T 1 (a, s) = Returns q (a1, s0)" and ok: "alloc_ok a s"
    and lv: "chunks_live a s"
  shows "chunks_live a1 s0 \<and> in_live_block s0 q"
proof -
  from allocate_live [OF al ok lv] have lv1: "chunks_live a1 s0" .
  from allocate_one [OF al ok] have "alloc_ok a1 s0" "q \<in> slots (chunks_m a1)" by simp_all
  from slots_live [OF this(1) lv1 this(2)] lv1 show ?thesis by simp
qed

lemma wf_container_store:
  assumes "mem s' = mem s" and "next_block s' = next_block s"
  shows "wf_container (c, s') xs = wf_container (c, s) xs"
  using assms alloc_ok_next_block [of s' s "allocator_m c"] by (simp add: wf_container_def)

lemma emplace_back_wf:
  assumes wf: "wf_container (c, s) xs"
    and r: "emplace_back ChunkSize sizeof_Node make_T args (c, s) = Returns u (c', s')"
  shows "\<exists>q d. make_T args = Inr d \<and> wf_container (c', s') (xs @ [(q, d)])"
proof -
  from wf have ch: "chain (mem s) (head_m c) xs"
    and tl: "tail_m c = (if xs = [] then nullptr else fst (last xs))"
    and sz: "size_m c = of_nat (length xs)"
    and ok: "alloc_ok (allocator_m c) s"
    and ho: "\<forall>x \<in> set xs. fst x \<in> slots (chunks_m (allocator_m c))"
    by (simp_all add: wf_container_def handed_out_slots)
  from emplace_back_Returns [OF r]
  obtain q a1 s1 d where al: "traits_allocate ChunkSize sizeof_Node 1 (allocator_m c, s) = Returns q (a1, s1)"
    and d: "make_T args = Inr d"
    and cases: "head_m c = nullptr \<and>
           c' = c\<lparr>head_m := q, tail_m := q, size_m := size_m c + 1, allocator_m := a1\<rparr> \<and>
           s' = s1\<lparr>mem := (mem s1)(q := Some \<lparr>data_n = d, next = nullptr\<rparr>),
                   trace := trace s1 @ [EvConstruct q]\<rparr>
         \<or> head_m c \<noteq> nullptr \<and>
           (\<exists>t. ((mem s1)(q := Some \<lparr>data_n = d, next = nullptr\<rparr>)) (tail_m c) = Some t \<and>
             c' = c\<lparr>tail_m := q, size_m := size_m c + 1, allocator_m := a1\<rparr> \<and>
             s' = s1\<lparr>mem := (mem s1)(q := Some \<lparr>data_n = d, next = nullptr\<rparr>,
                                  tail_m c := Some (t\<lparr>next := q\<rparr>)),
                     trace := trace s1 @ [EvConstruct q]\<rparr>)"
    by blast
  from al obtain s0 where s0: "allocate ChunkSize sizeof_Node 1 (allocator_m c, s) = Returns q (a1, s0)"
      "s1 = s0\<lparr>trace := trace s0 @ [EvAllocate 1 q]\<rparr>"
    by (auto simp: traits_allocate_Returns)
  from allocate_one [OF s0(1) ok]
  have ok1: "alloc_ok a1 s0" and m0: "mem s0 = mem s" and qn: "q \<noteq> nullptr"
    and qf: "q \<notin> slots (chunks_m (allocator_m c))"
    and sl: "slots (chunks_m a1) = insert q (slots (chunks_m (allocator_m c)))"
    by simp_all
  from s0(2) m0 have m1: "mem s1 = mem s" by simp
  from qf ho have qx: "q \<notin> fst ` set xs" by auto
  let ?node = "\<lparr>data_n = d, next = nullptr\<rparr>"
  let ?m1 = "(mem s)(q := Some ?node)"
  have ok': "alloc_ok a1 s'"
  proof -
    from cases s0(2) have "next_block s' = next_block s0" by auto
    with ok1 alloc_ok_next_block [of s' s0 a1] show ?thesis by simp
  qed
  have ho': "\<forall>x \<in> set (xs @ [(q, d)]). handed_out a1 (fst x)"
    using ho sl by (auto simp: handed_out_slots)
  have al': "allocator_m c' = a1" using cases by auto
  have sz': "size_m c' = of_nat (length (xs @ [(q, d)]))" using cases sz by auto
  have tl': "tail_m c' = fst (last (xs @ [(q, d)]))" using cases by auto
  have ch': "chain (mem s') (head_m c') (xs @ [(q, d)])"
  proof (cases "xs = []")
    case True
    with ch have "head_m c = nullptr" by simp
    with cases have "head_m c' = q" "mem s' = (mem s1)(q := Some ?node)" by auto
    with True qn show ?thesis by (simp add: chain_Cons)
  next
    case False
    with ch have hn: "head_m c \<noteq> nullptr" by (simp add: chain_head)
    with cases m1 obtain t where t: "?m1 (tail_m c) = Some t"
      and c': "c' = c\<lparr>tail_m := q, size_m := size_m c + 1, allocator_m := a1\<rparr>"
      and s': "mem s' = ?m1(tail_m c := Some (t\<lparr>next := q\<rparr>))"
      by auto
    from False tl have tl1: "tail_m c = fst (last xs)" by simp
    from ch qx have ch1: "chain ?m1 (head_m c) xs" by (intro chain_frame [OF ch]) auto
    have "chain (?m1(fst (last xs) := Some (t\<lparr>next := q\<rparr>))) (head_m c) (xs @ [(q, d)])"
      using ch1 False qx qn _ t [unfolded tl1] by (rule chain_snoc) simp
    with s' tl1 c' show ?thesis by simp
  qed
  from ch' tl' sz' ok' ho' al' have "wf_container (c', s') (xs @ [(q, d)])"
    by (simp add: wf_container_def)
  with d show ?thesis by blast
qed

lemma emplace_back_wf_Throws:
  assumes wf: "wf_container (c, s) xs"
    and r: "emplace_back ChunkSize sizeof_Node make_T args (c, s) = Throws e (c', s')"
  shows "wf_container (c', s') xs"
proof -
  from wf have ok: "alloc_ok (allocator_m c) s"
    and ho: "\<forall>x \<in> set xs. fst x \<in> slots (chunks_m (allocator_m c))"
    by (simp_all add: wf_container_def handed_out_slots)
  from emplace_back_Throws [OF r]
  have same: "head_m c' = head_m c" "tail_m c' = tail_m c" "size_m c' = size_m c" "mem s' = mem s"
    and cases: "\<exists>s1. allocate ChunkSize sizeof_Node 1 (allocator_m c, s) = Throws e (allocator_m c', s1) \<and> s' = s1
            \<or> (\<exists>q. allocate ChunkSize sizeof_Node 1 (allocator_m c, s) = Returns q (allocator_m c', s1) \<and>
                   make_T args = Inl e \<and>
                   s' = s1\<lparr>trace := trace s1 @ [EvAllocate 1 q, EvConstruct q, EvDeallocate q 1]\<rparr>)"
    by auto
  from cases have "alloc_ok (allocator_m c') s' \<and> slots (chunks_m (allocator_m c)) \<subseteq> slots (chunks_m (allocator_m c'))"
  proof (elim exE disjE conjE)
    fix s1 assume t: "allocate ChunkSize sizeof_Node 1 (allocator_m c, s) = Throws e (allocator_m c', s1)"
      and s': "s' = s1"
    from allocate_Throws [OF t] have a: "allocator_m c' = allocator_m c"
      and nb: "next_block s \<le> next_block s1" by simp_all
    from ok nb have "alloc_ok (allocator_m c) s1" by (rule alloc_ok_mono)
    with a s' show ?thesis by simp
  next
    fix s1 q assume a: "allocate ChunkSize sizeof_Node 1 (allocator_m c, s) = Returns q (allocator_m c', s1)"
      and s': "s' = s1\<lparr>trace := trace s1 @ [EvAllocate 1 q, EvConstruct q, EvDeallocate q 1]\<rparr>"
    from allocate_one [OF a ok] alloc_ok_next_block [of s' s1 "allocator_m c'"] s'
    show ?thesis by auto
  qed
  with wf same ho show ?thesis by (auto simp: wf_container_def handed_out_slots)
qed

text \<open>\<^verbatim>\<open>emplace_back\<close> releases no chunk.\<close>

lemma emplace_back_live:
  assumes wf: "wf_container (c, s) xs" and lv: "chunks_live (allocator_m c) s"
    and r: "emplace_back ChunkSize sizeof_Node make_T args (c, s) = Returns u (c', s')"
  shows "chunks_live (allocator_m c') s'"
proof -
  from wf have ok: "alloc_ok (allocator_m c) s" by (simp add: wf_container_def)
  from emplace_back_Returns [OF r]
  obtain q a1 s1 where al: "traits_allocate ChunkSize sizeof_Node 1 (allocator_m c, s) = Returns q (a1, s1)"
    and c': "allocator_m c' = a1" and s': "blocks s' = blocks s1"
    by auto
  from al obtain s0 where s0: "allocate ChunkSize sizeof_Node 1 (allocator_m c, s) = Returns q (a1, s0)"
      "s1 = s0\<lparr>trace := trace s0 @ [EvAllocate 1 q]\<rparr>"
    by (auto simp: traits_allocate_Returns)
  from allocate_one_live [OF s0(1) ok lv] have "chunks_live a1 s0" by simp
  moreover from s' s0(2) have "blocks s' = blocks s0" by simp
  ultimately show ?thesis using chunks_live_blocks [of s' s0 a1] by (simp add: c')
qed

text \<open>
  On a container on its own allocator, no chunk of which has been released,
  \<^verbatim>\<open>emplace_back\<close> returns or throws: the storage of the new node lies in a live chunk,
  and the tail is a live node.
\<close>

lemma emplace_back_defined:
  assumes wf: "wf_container (c, s) xs" and lv0: "chunks_live (allocator_m c) s"
  shows "emplace_back ChunkSize sizeof_Node make_T args (c, s) \<noteq> Undefined
       \<and> emplace_back ChunkSize sizeof_Node make_T args (c, s) \<noteq> Terminates"
proof (cases "traits_allocate ChunkSize sizeof_Node 1 (allocator_m c, s)")
  case (Returns q st0)
  obtain a1 s1 where st0: "st0 = (a1, s1)" by (cases st0)
  note al = Returns [unfolded st0]
  then obtain s0 where s0: "allocate ChunkSize sizeof_Node 1 (allocator_m c, s) = Returns q (a1, s0)"
      "s1 = s0\<lparr>trace := trace s0 @ [EvAllocate 1 q]\<rparr>"
    by (auto simp: traits_allocate_Returns)
  from wf have ch: "chain (mem s) (head_m c) xs"
    and tl: "tail_m c = (if xs = [] then nullptr else fst (last xs))"
    and ok: "alloc_ok (allocator_m c) s"
    and ho: "\<forall>x \<in> set xs. fst x \<in> slots (chunks_m (allocator_m c))"
    by (simp_all add: wf_container_def handed_out_slots)
  from allocate_one [OF s0(1) ok]
  have m0: "mem s0 = mem s" and qf: "q \<notin> slots (chunks_m (allocator_m c))"
    by simp_all
  from allocate_one_live [OF s0(1) ok lv0] have lv: "in_live_block s0 q" by simp
  from lv s0(2) have live: "in_live_block s1 q" by (simp add: in_live_block_trace)
  from s0(2) m0 have m1: "mem s1 = mem s" by simp
  show ?thesis
  proof (cases "make_T args")
    case (Inl e)
    from emplace_back_ctor_Throws [where make_T = make_T and args = args, OF al Inl]
    show ?thesis by simp
  next
    case (Inr d)
    show ?thesis
    proof (cases "head_m c = nullptr")
      case True
      from emplace_back_first [where make_T = make_T and args = args, OF al Inr live True]
      show ?thesis by simp
    next
      case False
      with ch have ne: "xs \<noteq> []" by (simp add: chain_head)
      from chain_last [OF ch ne] obtain t where t: "mem s (fst (last xs)) = Some t" by blast
      from ne ho have "fst (last xs) \<in> slots (chunks_m (allocator_m c))" by simp
      with qf have "fst (last xs) \<noteq> q" by auto
      with t tl ne m1 have "((mem s1)(q := Some \<lparr>data_n = d, next = nullptr\<rparr>)) (tail_m c) = Some t"
        by simp
      from emplace_back_link [where make_T = make_T and args = args, OF al Inr live False this]
      show ?thesis by simp
    qed
  qed
next
  case (Throws e st0)
  obtain a1 s1 where st0: "st0 = (a1, s1)" by (cases st0)
  from emplace_back_alloc_Throws [where make_T = make_T and args = args, OF Throws [unfolded st0]]
  show ?thesis by simp
next
  case Undefined
  with traits_allocate_not_Undefined show ?thesis by blast
next
  case Terminates
  with traits_allocate_not_Terminates show ?thesis by blast
qed

lemma clear_wf:
  assumes wf: "wf_container (c, s) xs"
  shows "\<exists>c' s'. clear (c, s) = Some (Returns () (c', s')) \<and> wf_container (c', s') []
           \<and> (chunks_live (allocator_m c) s \<longrightarrow> chunks_live (allocator_m c') s')"
proof -
  from wf have ch: "chain (mem s) (head_m c) xs" and ok: "alloc_ok (allocator_m c) s"
    by (simp_all add: wf_container_def)
  let ?s' = "s\<lparr>mem := (\<lambda>q. if q \<in> fst ` set xs then None else mem s q),
            trace := trace s @ concat (map (\<lambda>x. [EvDestroy (fst x), EvDeallocate (fst x) 1]) xs)\<rparr>"
  let ?c' = "c\<lparr>head_m := nullptr, tail_m := nullptr, size_m := 0, allocator_m := allocator_m c\<rparr>"
  from chain_clear_loop [OF ch, of "allocator_m c"]
  have "clear (c, s) = Some (Returns () (?c', ?s'))" by (simp add: clear_def)
  moreover from ok alloc_ok_next_block [of ?s' s "allocator_m c"]
  have "wf_container (?c', ?s') []" by (simp add: wf_container_def)
  moreover have "chunks_live (allocator_m c) s \<longrightarrow> chunks_live (allocator_m ?c') ?s'"
    using chunks_live_blocks [of ?s' s "allocator_m c"] by simp
  ultimately show ?thesis by blast
qed

lemma push_back_all_wf:
  assumes "wf_container (c, s) xs"
    and "push_back_all ChunkSize sizeof_Node copy_T vs (c, s) = Returns u (c', s')"
  shows "\<exists>ys. wf_container (c', s') (xs @ ys) \<and> map copy_T vs = map (\<lambda>y. Inr (snd y)) ys"
  using assms
proof (induction vs arbitrary: c s xs)
  case Nil
  then show ?case by simp
next
  case (Cons v vs)
  from Cons.prems(2) obtain c1 s1 where 1: "push_back ChunkSize sizeof_Node copy_T v (c, s) = Returns () (c1, s1)"
    and 2: "push_back_all ChunkSize sizeof_Node copy_T vs (c1, s1) = Returns u (c', s')"
    by (auto split: result.splits)
  from 1 have "emplace_back ChunkSize sizeof_Node copy_T v (c, s) = Returns () (c1, s1)"
    by (simp add: push_back_emplace_back)
  from emplace_back_wf [OF Cons.prems(1) this]
  obtain q d where d: "copy_T v = Inr d" and wf1: "wf_container (c1, s1) (xs @ [(q, d)])" by blast
  from Cons.IH [OF wf1 2] obtain ys where ys: "wf_container (c', s') ((xs @ [(q, d)]) @ ys)"
     "map copy_T vs = map (\<lambda>y. Inr (snd y)) ys" by blast
  then have "wf_container (c', s') (xs @ ((q, d) # ys)) \<and> map copy_T (v # vs) = map (\<lambda>y. Inr (snd y)) ((q, d) # ys)"
    using d by simp
  then show ?case by blast
qed

text \<open>A run of \<^verbatim>\<open>push_back\<close> calls on such a container returns or throws.\<close>

lemma push_back_all_defined:
  assumes "wf_container (c, s) xs" and "chunks_live (allocator_m c) s"
  shows "push_back_all ChunkSize sizeof_Node copy_T vs (c, s) \<noteq> Undefined
       \<and> push_back_all ChunkSize sizeof_Node copy_T vs (c, s) \<noteq> Terminates"
  using assms
proof (induction vs arbitrary: c s xs)
  case Nil
  then show ?case by simp
next
  case (Cons v vs)
  from emplace_back_defined [OF Cons.prems, of ChunkSize sizeof_Node copy_T v]
  have df: "push_back ChunkSize sizeof_Node copy_T v (c, s) \<noteq> Undefined"
    "push_back ChunkSize sizeof_Node copy_T v (c, s) \<noteq> Terminates"
    by (simp_all add: push_back_emplace_back)
  show ?case
  proof (cases "push_back ChunkSize sizeof_Node copy_T v (c, s)")
    case (Returns u st1)
    obtain c1 s1 where st1: "st1 = (c1, s1)" by (cases st1)
    from Returns st1 have r: "emplace_back ChunkSize sizeof_Node copy_T v (c, s) = Returns u (c1, s1)"
      by (simp add: push_back_emplace_back)
    from emplace_back_wf [OF Cons.prems(1) r]
    obtain q d where "wf_container (c1, s1) (xs @ [(q, d)])" by blast
    from Cons.IH [OF this emplace_back_live [OF Cons.prems r]] Returns st1 show ?thesis by simp
  next
    case (Throws e st1)
    then show ?thesis by simp
  next
    case Undefined
    with df show ?thesis by simp
  next
    case Terminates
    with df show ?thesis by simp
  qed
qed

lemma wf_container_default: "wf_container (my_container_default, s) []"
  by (simp add: wf_container_def my_container_default_def alloc_ok_default)

lemma chunks_live_default: "chunks_live (allocator_m my_container_default) s"
  by (simp add: chunks_live_def my_container_default_def my_allocator_default_def)

lemma wf_container_elements:
  "wf_container (c, s) xs \<Longrightarrow> elements (c, s) = Some (Returns (map snd xs) ())"
  using chain_iterate [of s "head_m c" xs "[]"]
  by (simp add: wf_container_def elements_def begin_it_def end_it_def)

lemma wf_container_inv:
  assumes wf: "wf_container (c, s) xs" and len: "length xs < 2 ^ 64"
  shows "container_inv (c, s)"
proof -
  from wf have ch: "chain (mem s) (head_m c) xs"
    and tl: "tail_m c = (if xs = [] then nullptr else fst (last xs))"
    and sz: "size_m c = of_nat (length xs)"
    by (simp_all add: wf_container_def)
  from len have un: "unat (size_m c) = length xs" by (simp add: sz unat_of_nat)
  have "(size_m c = 0) = (unat (size_m c) = 0)" by (simp add: unat_eq_zero)
  with un have z: "(size_m c = 0) = (xs = [])" by simp
  show ?thesis
  proof (cases "xs = []")
    case True
    with ch tl z show ?thesis by (simp add: container_inv_def)
  next
    case False
    from chain_nonnull [OF ch] False have "fst (last xs) \<noteq> nullptr" by simp
    moreover from chain_head [OF ch] False have "head_m c \<noteq> nullptr" by simp
    moreover from chain_last [OF ch False] obtain t where "mem s (fst (last xs)) = Some t" "next t = nullptr"
      by blast
    moreover note chain_follow [OF ch False]
    ultimately show ?thesis using False tl z un by (simp add: container_inv_def)
  qed
qed


section \<open>Destruction and unwinding\<close>

text \<open>
  A container on its own allocator gives everything back: after three \<^verbatim>\<open>push_back\<close>
  calls with chunk capacity 2 and the destructor, both chunks are released and the free
  store has its 1000 bytes again.
\<close>

lemma own_allocator_destruct:
  "(case exec_all 2 16 Inr Inr
           [Declare 0, PushBack 0 1, PushBack 0 2, PushBack 0 3, Destruct 0]
           (empty_world 0 1000 :: nat world) of
      Some (Returns u w) \<Rightarrow>
        objs w 0 = None \<and> blocks (sto w) 0 = None \<and> blocks (sto w) 1 = None
        \<and> avail (sto w) = 1000 \<and> mem (sto w) (Ptr 0 0) = None
    | _ \<Rightarrow> False)"
  by code_simp

text \<open>
  A copy construction that throws unwinds through \<^verbatim>\<open>~my_allocator\<close> of the half-built
  copy, whose chunk records are those of the source: the nodes of the source are
  destroyed and its chunk is released. The source keeps head, tail and count, so
  iterating it reads a node that is gone, and so does the next \<^verbatim>\<open>push_back\<close>, which
  constructs in released storage.
\<close>

lemma copy_construct_throw_destroys_source:
  "(case exec_all 10 16 (\<lambda>v. if v = 2 then Inl (user_exn 7) else Inr v) Inr
           [Declare 0, EmplaceBack 0 1, EmplaceBack 0 2, CopyConstruct 1 0]
           (empty_world 0 1000 :: nat world) of
      Some (Throws e w) \<Rightarrow>
        e = user_exn 7 \<and> objs w 1 = None
        \<and> (case objs w 0 of
              Some a \<Rightarrow>
                head_m a = Ptr 0 0 \<and> tail_m a = Ptr 0 1 \<and> size_m a = 2
                \<and> mem (sto w) (Ptr 0 0) = None \<and> mem (sto w) (Ptr 0 1) = None
                \<and> blocks (sto w) 0 = None
                \<and> elements (a, sto w) = Some Undefined
                \<and> (case push_back 10 16 Inr 3 (a, sto w) of Undefined \<Rightarrow> True | _ \<Rightarrow> False)
            | None \<Rightarrow> False)
    | _ \<Rightarrow> False)"
  by code_simp

text \<open>
  A container and its copy release the same chunk: once the copy has been destroyed,
  the destructor of the source, although the source is empty and satisfies the invariant
  of the handle, calls \<^verbatim>\<open>operator delete\<close> on a block that has been released.
\<close>

lemma copies_release_chunk_twice:
  "(case exec_all 10 16 Inr Inr
           [Declare 0, PushBack 0 1, CopyConstruct 1 0, Clear 0, Clear 1, Destruct 1]
           (empty_world 0 1000 :: nat world) of
      Some (Returns u w) \<Rightarrow>
        objs w 1 = None \<and> blocks (sto w) 0 = None
        \<and> (case objs w 0 of
              Some a \<Rightarrow>
                container_inv (a, sto w)
                \<and> map data (chunks_m (allocator_m a)) = [Ptr 0 0]
                \<and> (case my_container_dtor (a, sto w) of Some Undefined \<Rightarrow> True | _ \<Rightarrow> False)
            | None \<Rightarrow> False)
    | _ \<Rightarrow> False)
   \<and> (case exec_all 10 16 Inr Inr
           [Declare 0, PushBack 0 1, CopyConstruct 1 0, Clear 0, Clear 1, Destruct 1, Destruct 0]
           (empty_world 0 1000 :: nat world) of
      Some Undefined \<Rightarrow> True
    | _ \<Rightarrow> False)"
  by code_simp

section \<open>Claims about the container\<close>

text \<open>
  C2. \<^verbatim>\<open>push_back\<close> is \<^verbatim>\<open>emplace_back\<close> with the copy constructor. When the call
  returns, the count has gone up by exactly 1 and the new element is the last one: tail
  is the new node, which holds the value, and on a container with nodes \<open>xs\<close> iteration
  yields the old values followed by the new one. When storage has been allocated at
  \<open>q\<close> and the constructor throws \<open>e\<close>, the calls made are \<^verbatim>\<open>allocate\<close>, \<^verbatim>\<open>construct\<close>
  and \<^verbatim>\<open>deallocate(q, 1)\<close> in this order, and then \<open>e\<close> itself is thrown; whenever the
  call throws, head, tail and count (and the elements) are as before the call.
\<close>

theorem push_back_effect:
  "push_back ChunkSize sizeof_Node copy_T v = emplace_back ChunkSize sizeof_Node copy_T v
   \<and> (\<forall>u c' s'. emplace_back ChunkSize sizeof_Node make_T args (c, s) = Returns u (c', s') \<longrightarrow>
         size_m c' = size_m c + 1
         \<and> (size_m c + 1 \<noteq> 0 \<longrightarrow> unat (size_m c') = Suc (unat (size_m c)))
         \<and> (\<exists>d t. make_T args = Inr d \<and> mem s' (tail_m c') = Some t \<and> data_n t = d)
         \<and> (\<forall>xs. wf_container (c, s) xs \<longrightarrow>
               (\<exists>d. make_T args = Inr d
                  \<and> elements (c', s') = Some (Returns (map snd xs @ [d]) ()))))
   \<and> (\<forall>q a1 s1 e. allocate ChunkSize sizeof_Node 1 (allocator_m c, s) = Returns q (a1, s1)
             \<and> make_T args = Inl e \<longrightarrow>
         emplace_back ChunkSize sizeof_Node make_T args (c, s) =
           Throws e (c\<lparr>allocator_m := deallocate a1 q 1\<rparr>,
                     s1\<lparr>trace := trace s1 @ [EvAllocate 1 q, EvConstruct q, EvDeallocate q 1]\<rparr>))
   \<and> (\<forall>e c' s'. emplace_back ChunkSize sizeof_Node make_T args (c, s) = Throws e (c', s') \<longrightarrow>
         head_m c' = head_m c \<and> tail_m c' = tail_m c \<and> size_m c' = size_m c \<and> mem s' = mem s)"
proof (intro conjI allI impI)
  show "push_back ChunkSize sizeof_Node copy_T v = emplace_back ChunkSize sizeof_Node copy_T v"
    by (rule push_back_emplace_back)
next
  fix u c' s'
  assume r: "emplace_back ChunkSize sizeof_Node make_T args (c, s) = Returns u (c', s')"
  from emplace_back_Returns [OF r]
  obtain q a1 s1 d where d: "make_T args = Inr d"
    and cases: "head_m c = nullptr \<and>
           c' = c\<lparr>head_m := q, tail_m := q, size_m := size_m c + 1, allocator_m := a1\<rparr> \<and>
           s' = s1\<lparr>mem := (mem s1)(q := Some \<lparr>data_n = d, next = nullptr\<rparr>),
                   trace := trace s1 @ [EvConstruct q]\<rparr>
         \<or> head_m c \<noteq> nullptr \<and>
           (\<exists>t. ((mem s1)(q := Some \<lparr>data_n = d, next = nullptr\<rparr>)) (tail_m c) = Some t \<and>
             c' = c\<lparr>tail_m := q, size_m := size_m c + 1, allocator_m := a1\<rparr> \<and>
             s' = s1\<lparr>mem := (mem s1)(q := Some \<lparr>data_n = d, next = nullptr\<rparr>,
                                  tail_m c := Some (t\<lparr>next := q\<rparr>)),
                     trace := trace s1 @ [EvConstruct q]\<rparr>)"
    by blast
  from cases show sz: "size_m c' = size_m c + 1" by auto
  show "unat (size_m c') = Suc (unat (size_m c))" if "size_m c + 1 \<noteq> 0"
    using that unatSuc [of "size_m c"] by (simp add: sz add.commute)
  from cases have "\<exists>t. mem s' (tail_m c') = Some t \<and> data_n t = d"
    by (auto split: if_splits)
  with d show "\<exists>d t. make_T args = Inr d \<and> mem s' (tail_m c') = Some t \<and> data_n t = d" by blast
  fix xs assume "wf_container (c, s) xs"
  from emplace_back_wf [OF this r] obtain q' d' where "make_T args = Inr d'"
    "wf_container (c', s') (xs @ [(q', d')])" by blast
  with wf_container_elements [OF this(2)]
  show "\<exists>d. make_T args = Inr d \<and> elements (c', s') = Some (Returns (map snd xs @ [d]) ())"
    by simp
next
  fix q a1 s1 e
  assume h: "allocate ChunkSize sizeof_Node 1 (allocator_m c, s) = Returns q (a1, s1) \<and> make_T args = Inl e"
  then have "traits_allocate ChunkSize sizeof_Node 1 (allocator_m c, s)
       = Returns q (a1, s1\<lparr>trace := trace s1 @ [EvAllocate 1 q]\<rparr>)"
    by (simp add: traits_allocate_Returns)
  from emplace_back_ctor_Throws [where make_T = make_T and args = args, OF this] h
  show "emplace_back ChunkSize sizeof_Node make_T args (c, s) =
           Throws e (c\<lparr>allocator_m := deallocate a1 q 1\<rparr>,
                     s1\<lparr>trace := trace s1 @ [EvAllocate 1 q, EvConstruct q, EvDeallocate q 1]\<rparr>)"
    by simp
next
  fix e c' s'
  assume "emplace_back ChunkSize sizeof_Node make_T args (c, s) = Throws e (c', s')"
  from emplace_back_Throws [OF this]
  show "head_m c' = head_m c" "tail_m c' = tail_m c" "size_m c' = size_m c" "mem s' = mem s"
    by simp_all
qed

theorem push_back_effect_witness:
  "(case emplace_back 10 16 Inr (7 :: nat) (my_container_default, empty_store 0 1000) of
      Returns u (c, s) \<Rightarrow>
        size_m c = 1 \<and> elements (c, s) = Some (Returns [7] ())
        \<and> (case emplace_back 10 16 (\<lambda>x. Inl (user_exn 3)) (8 :: nat) (c, s) of
              Throws e (c', s') \<Rightarrow>
                e = user_exn 3 \<and> head_m c' = head_m c \<and> tail_m c' = tail_m c \<and> size_m c' = 1
                \<and> trace s' = trace s @ [EvAllocate 1 (Ptr 0 1), EvConstruct (Ptr 0 1), EvDeallocate (Ptr 0 1) 1]
            | _ \<Rightarrow> False)
    | _ \<Rightarrow> False)"
proof -
  let ?s0 = "empty_store 0 1000 :: nat Node store"
  have "case emplace_back 10 16 Inr (7 :: nat) (my_container_default, ?s0) of
          Returns u (c, s) \<Rightarrow> True | _ \<Rightarrow> False"
    by code_simp
  then obtain c s where r: "emplace_back 10 16 Inr (7 :: nat) (my_container_default, ?s0) = Returns () (c, s)"
    by (auto split: result.splits)
  note t1 = push_back_effect [of 10 16 Inr 7 Inr 7 my_container_default ?s0]
  from t1 r wf_container_default [of ?s0]
  have 1: "size_m c = 1" "elements (c, s) = Some (Returns [7] ())"
    by (auto simp: my_container_default_def)
  have "case emplace_back 10 16 Inr (7 :: nat) (my_container_default, ?s0) of
          Returns u (c, s) \<Rightarrow>
            (case allocate 10 16 1 (allocator_m c, s) of
               Returns q (a1, s1) \<Rightarrow> q = Ptr 0 1 \<and> trace s1 = trace s | _ \<Rightarrow> False)
        | _ \<Rightarrow> False"
    by code_simp
  with r obtain a1 s1 where al: "allocate 10 16 1 (allocator_m c, s) = Returns (Ptr 0 1) (a1, s1)"
    and tr: "trace s1 = trace s"
    by (auto split: result.splits)
  note t2 = push_back_effect [of 10 16 Inr 7 "\<lambda>x. Inl (user_exn 3)" "8 :: nat" c s]
  from t2 al have th: "emplace_back 10 16 (\<lambda>x. Inl (user_exn 3)) (8 :: nat) (c, s) =
      Throws (user_exn 3) (c\<lparr>allocator_m := deallocate a1 (Ptr 0 1) 1\<rparr>,
          s1\<lparr>trace := trace s1 @ [EvAllocate 1 (Ptr 0 1), EvConstruct (Ptr 0 1), EvDeallocate (Ptr 0 1) 1]\<rparr>)"
    by blast
  with r 1 tr show ?thesis by simp
qed

text \<open>
  C3. A default-constructed container is empty and on an allocator of its own, no chunk
  of which has been released. On every such container (one just cleared, or constructed
  from an allocator, is another), for every list of \<open>n\<close> values, the run of
  \<^verbatim>\<open>push_back\<close> calls has no undefined behaviour and does not end the program; a call
  fails only with \<^verbatim>\<open>std::bad_alloc\<close> or with what the copy constructor of a pushed
  value throws. When all \<open>n\<close> calls have returned,
  \<^verbatim>\<open>size()\<close> is \<open>n\<close> (as a 64-bit count, hence exactly \<open>n\<close> below \<open>2^64\<close>), and forward
  iteration from \<^verbatim>\<open>begin()\<close> to \<^verbatim>\<open>end()\<close> returns the copies that the copy constructor
  made of the pushed values, in the order pushed: the pushed values themselves when
  copying yields an equal value.
\<close>

theorem push_back_sequence:
  fixes copy_T :: "'v \<Rightarrow> exn + 'v" and s0 s :: "'v Node store"
  shows "wf_container (my_container_default, s0) []
   \<and> chunks_live (allocator_m my_container_default) s0
   \<and> (wf_container (c, s) [] \<and> chunks_live (allocator_m c) s \<longrightarrow>
        push_back_all ChunkSize sizeof_Node copy_T vs (c, s) \<noteq> Undefined
        \<and> push_back_all ChunkSize sizeof_Node copy_T vs (c, s) \<noteq> Terminates
        \<and> (\<forall>e st. push_back_all ChunkSize sizeof_Node copy_T vs (c, s) = Throws e st \<longrightarrow>
              e = bad_alloc \<or> (\<exists>v \<in> set vs. copy_T v = Inl e))
        \<and> (\<forall>u c' s'. push_back_all ChunkSize sizeof_Node copy_T vs (c, s) = Returns u (c', s') \<longrightarrow>
              container_size c' = of_nat (length vs)
              \<and> (length vs < 2 ^ 64 \<longrightarrow> unat (container_size c') = length vs)
              \<and> (\<exists>ws. elements (c', s') = Some (Returns ws ()) \<and> map copy_T vs = map Inr ws)
              \<and> ((\<forall>v \<in> set vs. copy_T v = Inr v) \<longrightarrow>
                    elements (c', s') = Some (Returns vs ()))))"
proof (intro conjI impI allI)
  show "wf_container (my_container_default, s0) []" by (rule wf_container_default)
next
  show "chunks_live (allocator_m my_container_default) s0" by (rule chunks_live_default)
next
  assume "wf_container (c, s) [] \<and> chunks_live (allocator_m c) s"
  then have wf0: "wf_container (c, s) []" and lv0: "chunks_live (allocator_m c) s" by simp_all
  from push_back_all_defined [OF wf0 lv0]
  show "push_back_all ChunkSize sizeof_Node copy_T vs (c, s) \<noteq> Undefined"
    "push_back_all ChunkSize sizeof_Node copy_T vs (c, s) \<noteq> Terminates"
    by simp_all
next
  fix e st
  assume "push_back_all ChunkSize sizeof_Node copy_T vs (c, s) = Throws e st"
  then show "e = bad_alloc \<or> (\<exists>v \<in> set vs. copy_T v = Inl e)" by (rule push_back_all_Throws)
next
  fix u c' s'
  assume "wf_container (c, s) [] \<and> chunks_live (allocator_m c) s"
    and r: "push_back_all ChunkSize sizeof_Node copy_T vs (c, s) = Returns u (c', s')"
  then have wf0: "wf_container (c, s) []" by simp
  from push_back_all_wf [OF wf0 r]
  obtain ys where wf: "wf_container (c', s') ys" and ys: "map copy_T vs = map (\<lambda>y. Inr (snd y)) ys"
    by auto
  from ys have len: "length ys = length vs" by (metis length_map)
  from wf have "size_m c' = of_nat (length ys)" by (simp add: wf_container_def)
  with len show sz: "container_size c' = of_nat (length vs)" by (simp add: container_size_def)
  then show "unat (container_size c') = length vs" if "length vs < 2 ^ 64"
    using that by (simp add: unat_of_nat)
  have el: "elements (c', s') = Some (Returns (map snd ys) ())"
    using wf by (rule wf_container_elements)
  from ys have m: "map copy_T vs = map Inr (map snd ys)" by simp
  with el show "\<exists>ws. elements (c', s') = Some (Returns ws ()) \<and> map copy_T vs = map Inr ws"
    by blast
  show "elements (c', s') = Some (Returns vs ())" if "\<forall>v \<in> set vs. copy_T v = Inr v"
  proof -
    from that have "map copy_T vs = map Inr vs" by simp
    with m have "map (Inr :: 'v \<Rightarrow> exn + 'v) (map snd ys) = map Inr vs" by simp
    moreover have "inj (Inr :: 'v \<Rightarrow> exn + 'v)" by (simp add: inj_def)
    ultimately have "map snd ys = vs" by (simp only: inj_map_eq_map)
    with el show ?thesis by simp
  qed
qed

theorem push_back_sequence_witness:
  "(case push_back_all 2 16 Inr [7, 8, 9 :: nat] (my_container_default, empty_store 0 1000) of
      Returns u (c, s) \<Rightarrow>
        container_size c = 3 \<and> unat (container_size c) = 3
        \<and> elements (c, s) = Some (Returns [7, 8, 9] ())
    | _ \<Rightarrow> False)
   \<and> (case push_back_all 2 16 (\<lambda>v. if v = 9 then Inl (user_exn 4) else Inr v) [7, 8, 9 :: nat]
             (my_container_default, empty_store 0 1000) of
        Throws e st \<Rightarrow> e = user_exn 4
      | _ \<Rightarrow> False)"
proof -
  let ?s0 = "empty_store 0 1000 :: nat Node store"
  let ?copy = "\<lambda>v :: nat. if v = 9 then Inl (user_exn 4) else Inr v"
  have "case push_back_all 2 16 Inr [7, 8, 9 :: nat] (my_container_default, ?s0) of
          Returns u (c, s) \<Rightarrow> True | _ \<Rightarrow> False"
    by code_simp
  then obtain c s where r: "push_back_all 2 16 Inr [7, 8, 9 :: nat] (my_container_default, ?s0)
      = Returns () (c, s)"
    by (auto split: result.splits)
  note t1 = push_back_sequence [where ?s0.0 = ?s0 and c = my_container_default and s = ?s0
      and ChunkSize = 2 and sizeof_Node = 16 and copy_T = Inr and vs = "[7, 8, 9 :: nat]"]
  from t1 r have 1: "container_size c = 3 \<and> unat (container_size c) = 3
        \<and> elements (c, s) = Some (Returns [7, 8, 9] ())"
    by simp
  have "case push_back_all 2 16 ?copy [7, 8, 9 :: nat] (my_container_default, ?s0) of
          Throws e st \<Rightarrow> e \<noteq> bad_alloc | _ \<Rightarrow> False"
    by code_simp
  then obtain e st where th: "push_back_all 2 16 ?copy [7, 8, 9 :: nat] (my_container_default, ?s0)
      = Throws e st" and e: "e \<noteq> bad_alloc"
    by (auto split: result.splits)
  note t2 = push_back_sequence [where ?s0.0 = ?s0 and c = my_container_default and s = ?s0
      and ChunkSize = 2 and sizeof_Node = 16 and copy_T = ?copy and vs = "[7, 8, 9 :: nat]"]
  from t2 th e have "e = user_exn 4"
    by (auto split: if_splits)
  with 1 show ?thesis unfolding r th by simp
qed

text \<open>
  C7. The invariant of the container handle holds for a container on an allocator of
  its own (\<open>wf_container_inv\<close>; \<open>emplace_back_wf\<close>, \<open>emplace_back_wf_Throws\<close> and \<open>clear_wf\<close>
  preserve \<open>wf_container\<close>), but not in every state reachable through the public
  operations. The copy constructor of the container copies the allocator, and the
  defaulted copy constructor of \<^verbatim>\<open>my_allocator\<close> copies the chunk records with their
  \<^verbatim>\<open>data\<close> pointers, so original and copy hand out the same slots. In the program
  \<^verbatim>\<open>a.push_back(1); my_container b(a); b.push_back(2); a.push_back(3);\<close> the last call
  constructs its node in the slot of the first node of \<open>b\<close>: afterwards \<open>b\<close> has count 2,
  but one step from its head reaches \<^verbatim>\<open>nullptr\<close>, not its tail, and iteration over \<open>b\<close>
  yields the single value 3.
\<close>

theorem shared_chunks_break_container:
  "(case exec_all 10 16 Inr Inr
           [Declare 0, PushBack 0 1, CopyConstruct 1 0, PushBack 1 2, PushBack 0 3]
           (empty_world 0 1000 :: nat world) of
      Some (Returns u w) \<Rightarrow>
        (case objs w 1 of
           Some b \<Rightarrow>
             head_m b = Ptr 0 1 \<and> tail_m b = Ptr 0 2 \<and> size_m b = 2
             \<and> follow (mem (sto w)) (head_m b) 1 = Some nullptr
             \<and> elements (b, sto w) = Some (Returns [3] ())
             \<and> \<not> container_inv (b, sto w)
         | None \<Rightarrow> False)
    | _ \<Rightarrow> False)"
  by code_simp

theorem shared_chunks_break_container_witness:
  "(case exec_all 10 16 Inr Inr
           [Declare 0, PushBack 0 1, CopyConstruct 1 0, PushBack 1 2, PushBack 0 3]
           (empty_world 0 1000 :: nat world) of
      Some (Returns u w) \<Rightarrow>
        (case objs w 1 of
           Some b \<Rightarrow>
             size_m b \<noteq> 0
             \<and> follow (mem (sto w)) (head_m b) (unat (size_m b) - 1) \<noteq> Some (tail_m b)
         | None \<Rightarrow> False)
    | _ \<Rightarrow> False)"
  using shared_chunks_break_container
  by (auto split: option.splits result.splits)

text \<open>
  C9. On every container whose links lead from head through live nodes to none,
  \<^verbatim>\<open>clear()\<close> returns. Whenever it returns, head and tail are none, \<^verbatim>\<open>size()\<close> is 0,
  and a second \<^verbatim>\<open>clear()\<close> returns the very same container and store: clearing twice is
  clearing once. It never throws.
\<close>

theorem clear_idempotent:
  "(\<forall>xs. chain (mem s) (head_m c) xs \<longrightarrow> (\<exists>c' s'. clear (c, s) = Some (Returns () (c', s'))))
   \<and> (\<forall>u c' s'. clear (c, s) = Some (Returns u (c', s')) \<longrightarrow>
         head_m c' = nullptr \<and> tail_m c' = nullptr \<and> container_size c' = 0
         \<and> clear (c', s') = Some (Returns () (c', s')))
   \<and> (\<forall>e st0. clear (c, s) \<noteq> Some (Throws e st0))"
proof (intro conjI allI impI)
  fix xs assume "chain (mem s) (head_m c) xs"
  from chain_clear_loop [OF this, of "allocator_m c"]
  show "\<exists>c' s'. clear (c, s) = Some (Returns () (c', s'))" by (simp add: clear_def)
next
  fix u c' s'
  assume r: "clear (c, s) = Some (Returns u (c', s'))"
  then obtain hd_p a where c': "c' = c\<lparr>head_m := nullptr, tail_m := nullptr, size_m := 0, allocator_m := a\<rparr>"
    by (auto simp: clear_def split: option.splits result.splits)
  then show "head_m c' = nullptr" "tail_m c' = nullptr" "container_size c' = 0"
    by (simp_all add: container_size_def)
  have "clear_loop nullptr a s' = Some (Returns nullptr (a, s'))"
    by (subst clear_loop.simps) simp
  then show "clear (c', s') = Some (Returns () (c', s'))"
    by (simp add: clear_def c')
next
  fix e st0
  show "clear (c, s) \<noteq> Some (Throws e st0)"
    by (auto simp: clear_def split: option.splits result.splits)
qed

theorem clear_idempotent_witness:
  "(case push_back_all 2 16 Inr [7, 8, 9 :: nat] (my_container_default, empty_store 0 1000) of
      Returns u (c, s) \<Rightarrow>
        chain (mem s) (head_m c) [(Ptr 0 0, 7), (Ptr 0 1, 8), (Ptr 1 0, 9)]
        \<and> (case clear (c, s) of
              Some (Returns u' (c', s')) \<Rightarrow>
                head_m c' = nullptr \<and> tail_m c' = nullptr \<and> container_size c' = 0
                \<and> clear (c', s') = Some (Returns () (c', s'))
            | _ \<Rightarrow> False)
    | _ \<Rightarrow> False)"
proof -
  have "case push_back_all 2 16 Inr [7, 8, 9 :: nat] (my_container_default, empty_store 0 1000) of
          Returns u (c, s) \<Rightarrow> chain (mem s) (head_m c) [(Ptr 0 0, 7), (Ptr 0 1, 8), (Ptr 1 0, 9)]
        | _ \<Rightarrow> False"
    by code_simp
  then obtain c s where r: "push_back_all 2 16 Inr [7, 8, 9 :: nat] (my_container_default, empty_store 0 1000)
      = Returns () (c, s)" and ch: "chain (mem s) (head_m c) [(Ptr 0 0, 7), (Ptr 0 1, 8), (Ptr 1 0, 9)]"
    by (auto split: result.splits)
  note t = clear_idempotent [of s c]
  from t ch obtain c' s' where cl: "clear (c, s) = Some (Returns () (c', s'))" by blast
  with t have "head_m c' = nullptr \<and> tail_m c' = nullptr \<and> container_size c' = 0
         \<and> clear (c', s') = Some (Returns () (c', s'))" by blast
  with ch cl show ?thesis unfolding r by simp
qed

text \<open>
  C10. Move-assigning a container to itself returns without throwing and changes
  nothing: every container (head, tail, count, allocator) and the whole store, so the
  elements too, are as before.
\<close>

theorem move_assign_self: "move_assign this this w = Some (Returns () w)"
  by (simp add: move_assign_def)


end
